theory Spec2Isabelle
  imports Main "HOL-Library.Word"
begin

unbundle bit_operations_syntax

section \<open>Data model\<close>

type_synonym u8 = "8 word"
type_synonym u16 = "16 word"
type_synonym u32 = "32 word"

definition SHWR_MAX_VAL :: nat where "SHWR_MAX_VAL = 2 ^ 12"
definition SHWR_RAW_NCH_MAX :: nat where "SHWR_RAW_NCH_MAX = 5"
definition SHWR_NCH_MAX :: nat where "SHWR_NCH_MAX = 2 * SHWR_RAW_NCH_MAX"
definition SHWR_NSAMPLES :: nat where "SHWR_NSAMPLES = 2048"
definition DATASIZE :: nat where "DATASIZE = SHWR_NSAMPLES * SHWR_RAW_NCH_MAX"

record shwr_header =
  sh_id :: u32
  shwr_buf_status :: u32
  shwr_buf_start :: u32
  shwr_buf_trig_id :: u32
  ttag_shwr_seconds :: u32
  ttag_shwr_nanosec :: u32
  rd :: u32

datatype fault = OutOfBounds

definition deref :: "u32 list \<Rightarrow> nat \<Rightarrow> fault + u32" where
  "deref mem p = (if p < length mem then Inr (mem ! p) else Inl OutOfBounds)"

definition set_sample :: "u16 list list \<Rightarrow> nat \<Rightarrow> nat \<Rightarrow> u16 \<Rightarrow> u16 list list" where
  "set_sample tr ch i v = tr[ch := (tr ! ch)[i := v]]"

definition trace_shape :: "u16 list list \<Rightarrow> bool" where
  "trace_shape tr \<longleftrightarrow>
     length tr = SHWR_NCH_MAX \<and> list_all (\<lambda>row. length row = SHWR_NSAMPLES) tr"

function convert_samples ::
  "u32 list \<Rightarrow> nat \<Rightarrow> nat \<Rightarrow> nat \<Rightarrow> nat \<Rightarrow> u16 list list \<Rightarrow> fault + u16 list list" where
  "convert_samples databuf adc stop_ptr cur_ptr i traces =
     (if i < SHWR_NSAMPLES then
        (case deref databuf cur_ptr of
           Inl e \<Rightarrow> Inl e
         | Inr w \<Rightarrow>
             (let traces1 = set_sample traces (2 * adc) i (ucast (w AND 0xfff));
                  traces2 = set_sample traces1 (2 * adc + 1) i (ucast (drop_bit 16 w AND 0xfff));
                  cur1 = cur_ptr + 1;
                  cur2 = (if cur1 = stop_ptr then stop_ptr - SHWR_NSAMPLES else cur1)
              in convert_samples databuf adc stop_ptr cur2 (i + 1) traces2))
      else Inr traces)"
  by pat_completeness auto
termination
  by (relation "measure (\<lambda>(databuf, adc, stop_ptr, cur_ptr, i, traces). SHWR_NSAMPLES - i)") auto

function convert_channels ::
  "u32 list \<Rightarrow> nat \<Rightarrow> nat \<Rightarrow> u16 list list \<Rightarrow> fault + u16 list list" where
  "convert_channels databuf start adc traces =
     (if adc < SHWR_RAW_NCH_MAX then
        (case convert_samples databuf adc ((adc + 1) * SHWR_NSAMPLES)
                (adc * SHWR_NSAMPLES + start) 0 traces of
           Inl e \<Rightarrow> Inl e
         | Inr traces1 \<Rightarrow> convert_channels databuf start (adc + 1) traces1)
      else Inr traces)"
  by pat_completeness auto
termination
  by (relation "measure (\<lambda>(databuf, start, adc, traces). SHWR_RAW_NCH_MAX - adc)") auto

definition convert_databuf ::
  "shwr_header \<Rightarrow> u32 list \<Rightarrow> u16 list list \<Rightarrow> fault + u16 list list" where
  "convert_databuf sh databuf traces =
     convert_channels databuf (unat (shwr_buf_start sh)) 0 traces"

declare convert_samples.simps [simp del] convert_channels.simps [simp del]

definition lo12 :: "u32 \<Rightarrow> u16" where "lo12 w = ucast (w AND 0xfff)"
definition hi12 :: "u32 \<Rightarrow> u16" where "hi12 w = ucast (drop_bit 16 w AND 0xfff)"

function ramp_samples :: "u16 list list \<Rightarrow> nat \<Rightarrow> int \<Rightarrow> nat \<Rightarrow> int \<Rightarrow> int" where
  "ramp_samples trace ch sum0 i result =
     (if i < SHWR_NSAMPLES then
        (if trace ! (2 * ch) ! i \<noteq> trace ! (2 * ch + 1) ! i \<or>
            (uint (trace ! (2 * ch) ! i) + int i) mod int SHWR_MAX_VAL \<noteq> sum0
         then result OR push_bit ch 1
         else ramp_samples trace ch sum0 (i + 1) result)
      else result)"
  by pat_completeness auto
termination
  by (relation "measure (\<lambda>(trace, ch, sum0, i, result). SHWR_NSAMPLES - i)") auto

function ramp_channels :: "u16 list list \<Rightarrow> nat \<Rightarrow> int \<Rightarrow> int" where
  "ramp_channels trace ch result =
     (if ch < SHWR_RAW_NCH_MAX then
        ramp_channels trace (ch + 1)
          (ramp_samples trace ch (uint (trace ! (2 * ch) ! 0)) 0 result)
      else result)"
  by pat_completeness auto
termination
  by (relation "measure (\<lambda>(trace, ch, result). SHWR_RAW_NCH_MAX - ch)") auto

definition evaluate_ramp :: "u16 list list \<Rightarrow> int" where
  "evaluate_ramp trace = ramp_channels trace 0 0"

declare ramp_samples.simps [simp del] ramp_channels.simps [simp del]

definition ramp_mismatch :: "u16 list list \<Rightarrow> nat \<Rightarrow> int \<Rightarrow> nat \<Rightarrow> bool" where
  "ramp_mismatch trace ch sum0 i \<longleftrightarrow>
     trace ! (2 * ch) ! i \<noteq> trace ! (2 * ch + 1) ! i \<or>
     (uint (trace ! (2 * ch) ! i) + int i) mod int SHWR_MAX_VAL \<noteq> sum0"

definition channel_fails :: "u16 list list \<Rightarrow> nat \<Rightarrow> bool" where
  "channel_fails trace ch \<longleftrightarrow>
     (\<exists>i<SHWR_NSAMPLES. ramp_mismatch trace ch (uint (trace ! (2 * ch) ! 0)) i)"

section \<open>System model\<close>

subsection \<open>Constants of the hardware headers\<close>

text \<open>
  The register offsets, masks and buffer geometry come from \<^verbatim>\<open>sde_trigger_defs.h\<close>,
  \<^verbatim>\<open>time_tagging.h\<close> and \<^verbatim>\<open>test_control_defs.h\<close>, which are not part of the
  sources; the page size comes from \<^verbatim>\<open>sysconf\<close> and the wake-up signal number from
  \<^verbatim>\<open>SIGRTMIN\<close>. They are parameters of the model.
\<close>

record hwdefs =
  SHWR_BUF_STATUS_ADDR :: nat
  SHWR_BUF_START_ADDR :: nat
  SHWR_BUF_TRIG_ID_ADDR :: nat
  SHWR_BUF_CONTROL_ADDR :: nat
  SHWR_BUF_TRIG_MASK_ADDR :: nat
  LED_CONTROL_ADDR :: nat
  TTAG_SHWR_SECONDS_ADDR :: nat
  TTAG_SHWR_NANOSEC_ADDR :: nat
  USE_FAKE_ADDR :: nat
  USE_FAKE_PPS_BIT :: nat
  SHWR_BUF_NFULL_MASK :: u32
  SHWR_BUF_NFULL_SHIFT :: nat
  SHWR_BUF_RNUM_MASK :: u32
  SHWR_BUF_RNUM_SHIFT :: nat
  SHWR_BUF_TRIG_LED :: u32
  COMPATIBILITY_SHWR_BUF_TRIG_EXT :: u32
  SHWR_MEM_DEPTH :: nat
  SHWR_MEM_NBUF :: nat
  PAGESIZE :: nat
  SIG_WAKEUP :: int

subsection \<open>The environment: system calls, hardware, events\<close>

datatype region = Regs | TtRegs | TstctlRegs | Shwr nat

datatype spi_request =
  SPI_IOC_WR_MODE | SPI_IOC_RD_MODE | SPI_IOC_WR_BITS_PER_WORD | SPI_IOC_RD_BITS_PER_WORD |
  SPI_IOC_WR_MAX_SPEED_HZ | SPI_IOC_RD_MAX_SPEED_HZ

datatype handler = H_read_evt_end | H_restore_trigger | H_adc_normal

datatype syscall =
    SysOpenSpi nat
  | SysIoctl int spi_request
  | SysWrite int "u8 list"
  | SysClose int
  | SysOpenMem
  | SysMmap region
  | SysMunmap region
  | SysSigemptyset
  | SysSigaddset
  | SysSigprocmask
  | SysTimerCreate
  | SysTimerSettime
  | SysSigwaitinfo
  | SysSocket
  | SysInetAton
  | SysBind
  | SysSelect
  | SysRecvfrom
  | SysSendto "u8 list"

datatype message = IgnoredFailingADC nat | SpiNotOpen nat

text \<open>
  The observable trace of a run. \<open>Call c r\<close> is a system call with its return value,
  \<open>RegRead\<close> and \<open>RegWrite\<close> are accesses to a mapped register block, \<open>Memcpy ch off\<close>
  is the copy of \<open>SHWR_NSAMPLES\<close> words from ring buffer \<open>ch\<close> at word offset \<open>off\<close>,
  \<open>Atexit\<close> a registration of an exit handler, \<open>Stderr\<close> one of the two messages of
  \<open>adc_settestmode\<close>, \<open>Received\<close> the datagram a \<open>recvfrom\<close> delivered, and
  \<open>IdCounter v\<close> records that the event id counter was incremented to \<open>v\<close>.
\<close>

datatype event =
    Call syscall int
  | RegRead region nat u32
  | RegWrite region nat u32
  | Memcpy nat nat
  | Atexit handler
  | Stderr message
  | Received "u8 list"
  | IdCounter u32

text \<open>
  What the outside world answers. Every answer may depend on the number of events so
  far, so that the same call can succeed once and fail later, and a volatile register
  can change between two reads.
\<close>

record env =
  sys_ret :: "nat \<Rightarrow> syscall \<Rightarrow> int"
  hw_reg :: "nat \<Rightarrow> region \<Rightarrow> nat \<Rightarrow> u32"
  hw_shwr :: "nat \<Rightarrow> nat \<Rightarrow> nat \<Rightarrow> u32"
  clock_us :: "nat \<Rightarrow> int"
  datagram :: "nat \<Rightarrow> u8 list"
  databuf_addr :: nat

text \<open>
  How a function stops other than by returning: \<open>exit(code)\<close>, \<open>abort()\<close>, or an access
  outside an array (undefined behaviour in C, kept as a value here).
\<close>

datatype stop = Exit int | Abort | Fault fault

definition seq :: "(stop + 'a) \<times> 's \<Rightarrow> ('a \<Rightarrow> 's \<Rightarrow> (stop + 'b) \<times> 's) \<Rightarrow> (stop + 'b) \<times> 's" where
  "seq m f = (case m of (Inr v, s) \<Rightarrow> f v s | (Inl e, s) \<Rightarrow> (Inl e, s))"

function for_loop ::
  "nat \<Rightarrow> nat \<Rightarrow> (nat \<Rightarrow> 's \<Rightarrow> (stop + unit) \<times> 's) \<Rightarrow> 's \<Rightarrow> (stop + unit) \<times> 's" where
  "for_loop i n body st =
     (if i < n then
        (case body i st of
           (Inr u, st1) \<Rightarrow> for_loop (i + 1) n body st1
         | (Inl e, st1) \<Rightarrow> (Inl e, st1))
      else (Inr (), st))"
  by pat_completeness auto
termination
  by (relation "measure (\<lambda>(i, n, body, st). n - i)") auto

declare for_loop.simps [simp del]

subsection \<open>Process state\<close>

record read_evt_global =
  id_counter :: u32
  shwr_pt :: "region option list"
  shwr_mem_size :: int
  regs :: "region option"
  tt_regs :: "region option"
  tstctl_regs :: "region option"
  regs_size :: int

record world =
  events :: "event list"

record proc = world +
  gl :: read_evt_global
  sh :: shwr_header

definition emit :: "event \<Rightarrow> 'a world_scheme \<Rightarrow> 'a world_scheme" where
  "emit e st = st\<lparr>events := events st @ [e]\<rparr>"

definition now :: "'a world_scheme \<Rightarrow> nat" where
  "now st = length (events st)"

definition syscall :: "env \<Rightarrow> syscall \<Rightarrow> 'a world_scheme \<Rightarrow> int \<times> 'a world_scheme" where
  "syscall env c st = (let r = sys_ret env (now st) c in (r, emit (Call c r) st))"

definition reg_read :: "env \<Rightarrow> region \<Rightarrow> nat \<Rightarrow> 'a world_scheme \<Rightarrow> u32 \<times> 'a world_scheme" where
  "reg_read env blk addr st =
     (let v = hw_reg env (now st) blk addr in (v, emit (RegRead blk addr v) st))"

definition reg_write :: "region \<Rightarrow> nat \<Rightarrow> u32 \<Rightarrow> 'a world_scheme \<Rightarrow> 'a world_scheme" where
  "reg_write blk addr v st = emit (RegWrite blk addr v) st"

subsection \<open>Self-test tool: ADC control over SPI\<close>

definition MASK_CHS :: int where "MASK_CHS = 0x03"
definition ADDR_CHS :: int where "ADDR_CHS = 0x05"
definition ADDR_TEST :: int where "ADDR_TEST = 0x0D"
definition RAMPON :: int where "RAMPON = 0x0F"
definition RAMPOFF :: int where "RAMPOFF = 0x00"

definition EXIT_NOPER :: int where "EXIT_NOPER = 32"
definition EXIT_OPENSPI :: int where "EXIT_OPENSPI = 33"
definition EXIT_SPIWRMODE :: int where "EXIT_SPIWRMODE = 34"
definition EXIT_SPIRDMODE :: int where "EXIT_SPIRDMODE = 35"
definition EXIT_SPIBITPERW :: int where "EXIT_SPIBITPERW = 36"
definition EXIT_SPIWRSPEED :: int where "EXIT_SPIWRSPEED = 37"
definition EXIT_SPIRDSPEED :: int where "EXIT_SPIRDSPEED = 38"
definition EXIT_SPIWRITE :: int where "EXIT_SPIWRITE = 39"
definition EXIT_SPIREAD :: int where "EXIT_SPIREAD = 40"
definition EXIT_BUFALIGN :: int where "EXIT_BUFALIGN = 50"
definition EXIT_EVTDEVMEM :: int where "EXIT_EVTDEVMEM = 60"
definition EXIT_EVTMAPTRIG :: int where "EXIT_EVTMAPTRIG = 61"
definition EXIT_EVTMAPTIME :: int where "EXIT_EVTMAPTIME = 62"
definition EXIT_EVTMAPTEST :: int where "EXIT_EVTMAPTEST = 63"
definition EXIT_EVTMAPSHWR :: int where "EXIT_EVTMAPSHWR = 64"
definition EXIT_EVTSIGNAL :: int where "EXIT_EVTSIGNAL = 65"
definition EXIT_EVTTIMER :: int where "EXIT_EVTTIMER = 66"
definition EXIT_EVTSETTIME :: int where "EXIT_EVTSETTIME = 67"

text \<open>The globals of \<^verbatim>\<open>adc_check_ramp.c\<close>.\<close>

record acr_proc = proc +
  saved_trigger :: u32
  databuf :: "u32 list"
  traces :: "u16 list list"
  adc_trace_fn :: "string option"
  adcfd :: "int list"
  failedadcfd :: int
  exit_funcs :: "handler list"

definition openspidev :: "env \<Rightarrow> nat \<Rightarrow> acr_proc \<Rightarrow> (stop + int) \<times> acr_proc" where
  "openspidev env adc st =
     (let (fd, st1) = syscall env (SysOpenSpi adc) st in
      if fd < 0 then (Inl (Exit EXIT_OPENSPI), st1) else (Inr fd, st1))"

definition ioctl_or_exit ::
  "env \<Rightarrow> int \<Rightarrow> spi_request \<Rightarrow> int \<Rightarrow> acr_proc \<Rightarrow> (stop + unit) \<times> acr_proc" where
  "ioctl_or_exit env fd req code st =
     (let (ret, st1) = syscall env (SysIoctl fd req) st in
      if ret = - 1 then (Inl (Exit code), st1) else (Inr (), st1))"

definition spi_init :: "env \<Rightarrow> int \<Rightarrow> acr_proc \<Rightarrow> (stop + unit) \<times> acr_proc" where
  "spi_init env fd st =
     seq (ioctl_or_exit env fd SPI_IOC_WR_MODE EXIT_SPIWRMODE st) (\<lambda>_ st.
     seq (ioctl_or_exit env fd SPI_IOC_RD_MODE EXIT_SPIRDMODE st) (\<lambda>_ st.
     seq (ioctl_or_exit env fd SPI_IOC_WR_BITS_PER_WORD EXIT_SPIBITPERW st) (\<lambda>_ st.
     seq (ioctl_or_exit env fd SPI_IOC_RD_BITS_PER_WORD EXIT_SPIBITPERW st) (\<lambda>_ st.
     seq (ioctl_or_exit env fd SPI_IOC_WR_MAX_SPEED_HZ EXIT_SPIWRSPEED st) (\<lambda>_ st.
     ioctl_or_exit env fd SPI_IOC_RD_MAX_SPEED_HZ EXIT_SPIRDSPEED st)))))"

definition cmdstr :: "int \<Rightarrow> int \<Rightarrow> u8 list" where
  "cmdstr address cmd =
     [word_of_int (drop_bit 8 address AND 0xff), word_of_int (address AND 0xff), word_of_int cmd]"

definition adc_write :: "env \<Rightarrow> int \<Rightarrow> int \<Rightarrow> int \<Rightarrow> acr_proc \<Rightarrow> (stop + int) \<times> acr_proc" where
  "adc_write env fd address cmd st =
     (let (n, st1) = syscall env (SysWrite fd (cmdstr address cmd)) st in
      if n \<noteq> 3 then (Inl (Exit EXIT_SPIWRITE), st1\<lparr>failedadcfd := fd\<rparr>)
      else (Inr 1, st1))"

definition adc_settestmode_body ::
  "env \<Rightarrow> int \<Rightarrow> nat \<Rightarrow> acr_proc \<Rightarrow> (stop + unit) \<times> acr_proc" where
  "adc_settestmode_body env testmode i st =
     (let fd = adcfd st ! i in
      if fd \<ge> 0 then
        if fd = failedadcfd st then (Inr (), emit (Stderr (IgnoredFailingADC i)) st)
        else
          seq (adc_write env fd ADDR_CHS MASK_CHS st) (\<lambda>_ st1.
          seq (adc_write env fd ADDR_TEST testmode st1) (\<lambda>_ st2. (Inr (), st2)))
      else (Inr (), emit (Stderr (SpiNotOpen i)) st))"

definition adc_settestmode :: "env \<Rightarrow> int \<Rightarrow> acr_proc \<Rightarrow> (stop + unit) \<times> acr_proc" where
  "adc_settestmode env testmode st =
     for_loop 0 SHWR_RAW_NCH_MAX (adc_settestmode_body env testmode) st"

definition close_adc :: "env \<Rightarrow> nat \<Rightarrow> acr_proc \<Rightarrow> (stop + unit) \<times> acr_proc" where
  "close_adc env i st =
     (let (r, st1) = syscall env (SysClose (adcfd st ! i)) st
      in (Inr (), st1\<lparr>adcfd := (adcfd st1)[i := - 1]\<rparr>))"

definition adc_normal :: "env \<Rightarrow> acr_proc \<Rightarrow> (stop + unit) \<times> acr_proc" where
  "adc_normal env st =
     seq (adc_settestmode env RAMPOFF st) (\<lambda>_ st1.
       for_loop 0 SHWR_RAW_NCH_MAX (close_adc env) st1)"

subsection \<open>Device register map: \<^verbatim>\<open>read_evt_init\<close> and \<^verbatim>\<open>read_evt_end\<close>\<close>

definition roundup :: "u32 \<Rightarrow> u32 \<Rightarrow> u32" where
  "roundup n multiple = ((n + multiple - 1) div multiple) * multiple"

text \<open>
  The two tools carry the same \<^verbatim>\<open>read_evt_init\<close> up to the exit codes: the self-test
  tool has one code per failure, the streaming tool exits with 1 everywhere.
\<close>

record init_codes =
  code_devmem :: int
  code_maptrig :: int
  code_maptime :: int
  code_maptest :: int
  code_mapshwr :: int
  code_signal :: int
  code_timer :: int
  code_settime :: int

definition acr_codes :: init_codes where
  "acr_codes = \<lparr>code_devmem = EXIT_EVTDEVMEM, code_maptrig = EXIT_EVTMAPTRIG,
     code_maptime = EXIT_EVTMAPTIME, code_maptest = EXIT_EVTMAPTEST,
     code_mapshwr = EXIT_EVTMAPSHWR, code_signal = EXIT_EVTSIGNAL,
     code_timer = EXIT_EVTTIMER, code_settime = EXIT_EVTSETTIME\<rparr>"

definition ns_codes :: init_codes where
  "ns_codes = \<lparr>code_devmem = 1, code_maptrig = 1, code_maptime = 1, code_maptest = 1,
     code_mapshwr = 1, code_signal = 1, code_timer = 1, code_settime = 1\<rparr>"

definition mmap_or_exit ::
  "env \<Rightarrow> region \<Rightarrow> int \<Rightarrow> 'a proc_scheme \<Rightarrow> (stop + unit) \<times> 'a proc_scheme" where
  "mmap_or_exit env r code st =
     (let (pt, st1) = syscall env (SysMmap r) st in
      if pt = - 1 then (Inl (Exit code), st1) else (Inr (), st1))"

definition call_or_exit ::
  "env \<Rightarrow> syscall \<Rightarrow> int \<Rightarrow> 'a proc_scheme \<Rightarrow> (stop + unit) \<times> 'a proc_scheme" where
  "call_or_exit env c code st =
     (let (ret, st1) = syscall env c st in
      if ret \<noteq> 0 then (Inl (Exit code), st1) else (Inr (), st1))"

definition map_shwr ::
  "env \<Rightarrow> int \<Rightarrow> nat \<Rightarrow> 'a proc_scheme \<Rightarrow> (stop + unit) \<times> 'a proc_scheme" where
  "map_shwr env code i st =
     seq (mmap_or_exit env (Shwr i) code st) (\<lambda>_ st1.
       (Inr (), st1\<lparr>gl := (gl st1)\<lparr>shwr_pt := (shwr_pt (gl st1))[i := Some (Shwr i)]\<rparr>\<rparr>))"

definition read_evt_init_with ::
  "init_codes \<Rightarrow> hwdefs \<Rightarrow> env \<Rightarrow> 'a proc_scheme \<Rightarrow> (stop + unit) \<times> 'a proc_scheme" where
  "read_evt_init_with ec d env st =
     (let (fd, st) = syscall env SysOpenMem st in
      if fd < 0 then (Inl (Exit (code_devmem ec)), st)
      else
        let st = st\<lparr>gl := (gl st)\<lparr>regs_size := sint (roundup 1024 (word_of_nat (PAGESIZE d)))\<rparr>\<rparr> in
        seq (mmap_or_exit env Regs (code_maptrig ec) st) (\<lambda>_ st.
        let st = st\<lparr>gl := (gl st)\<lparr>regs := Some Regs\<rparr>\<rparr> in
        seq (mmap_or_exit env TtRegs (code_maptime ec) st) (\<lambda>_ st.
        let st = st\<lparr>gl := (gl st)\<lparr>tt_regs := Some TtRegs\<rparr>\<rparr> in
        seq (mmap_or_exit env TstctlRegs (code_maptest ec) st) (\<lambda>_ st.
        let st = st\<lparr>gl := (gl st)\<lparr>tstctl_regs := Some TstctlRegs,
                   shwr_mem_size :=
                     sint (roundup (word_of_nat (SHWR_MEM_DEPTH d * SHWR_MEM_NBUF d))
                             (word_of_nat (PAGESIZE d)))\<rparr>\<rparr> in
        seq (for_loop 0 SHWR_RAW_NCH_MAX (map_shwr env (code_mapshwr ec)) st) (\<lambda>_ st.
        let (r, st) = syscall env (SysClose fd) st in
        seq (call_or_exit env SysSigemptyset (code_signal ec) st) (\<lambda>_ st.
        seq (call_or_exit env SysSigaddset (code_signal ec) st) (\<lambda>_ st.
        seq (call_or_exit env SysSigprocmask (code_signal ec) st) (\<lambda>_ st.
        seq (call_or_exit env SysTimerCreate (code_timer ec) st) (\<lambda>_ st.
        seq (call_or_exit env SysTimerSettime (code_settime ec) st) (\<lambda>_ st.
        (Inr (), st\<lparr>gl := (gl st)\<lparr>id_counter := 0\<rparr>\<rparr>)))))))))))"

definition munmap_if :: "env \<Rightarrow> region option \<Rightarrow> 'a proc_scheme \<Rightarrow> 'a proc_scheme" where
  "munmap_if env pt st =
     (case pt of None \<Rightarrow> st | Some r \<Rightarrow> snd (syscall env (SysMunmap r) st))"

definition unmap_shwr :: "env \<Rightarrow> nat \<Rightarrow> 'a proc_scheme \<Rightarrow> (stop + unit) \<times> 'a proc_scheme" where
  "unmap_shwr env i st = (Inr (), munmap_if env (shwr_pt (gl st) ! i) st)"

definition read_evt_end :: "env \<Rightarrow> 'a proc_scheme \<Rightarrow> (stop + unit) \<times> 'a proc_scheme" where
  "read_evt_end env st =
     (let st = munmap_if env (regs (gl st)) st;
          st = munmap_if env (tt_regs (gl st)) st;
          st = munmap_if env (tstctl_regs (gl st)) st
      in for_loop 0 SHWR_RAW_NCH_MAX (unmap_shwr env) st)"

subsection \<open>Trigger wait and event reader: \<^verbatim>\<open>read_evt_read\<close>\<close>

text \<open>
  The wait loop reads the status register, then compares the signal; it has no bound of
  its own, so the model carries fuel and \<open>None\<close> stands for a loop that has not left
  within it.
\<close>

fun wait_trigger ::
  "hwdefs \<Rightarrow> env \<Rightarrow> nat \<Rightarrow> int \<Rightarrow> 'a proc_scheme \<Rightarrow> (int \<times> 'a proc_scheme) option" where
  "wait_trigger d env 0 sig st = None"
| "wait_trigger d env (Suc fuel) sig st =
     (let (v, st1) = reg_read env Regs (SHWR_BUF_STATUS_ADDR d) st in
      if v AND push_bit (SHWR_BUF_NFULL_SHIFT d) (SHWR_BUF_NFULL_MASK d) = 0 \<and> sig = SIG_WAKEUP d
      then (let (sig1, st2) = syscall env SysSigwaitinfo st1 in wait_trigger d env fuel sig1 st2)
      else Some (sig, st1))"

text \<open>
  One \<open>memcpy\<close> of the copy loop: \<open>SHWR_NSAMPLES\<close> words from word offset \<open>offset\<close> of the
  mapped window of channel \<open>i\<close>. The window is \<open>shwr_mem_size\<close> bytes long; a copy that
  would leave it is a fault. \<open>store\<close> writes the words to the caller's buffer.
\<close>

definition copy_channel ::
  "env \<Rightarrow> (nat \<Rightarrow> u32 list \<Rightarrow> 'a proc_scheme \<Rightarrow> 'a proc_scheme) \<Rightarrow> nat \<Rightarrow> nat \<Rightarrow>
   'a proc_scheme \<Rightarrow> (stop + unit) \<times> 'a proc_scheme" where
  "copy_channel env store offset i st =
     (if shwr_pt (gl st) ! i \<noteq> None \<and>
         4 * int (offset + SHWR_NSAMPLES) \<le> shwr_mem_size (gl st)
      then (Inr (),
            store i (map (hw_shwr env (now st) i) [offset ..< offset + SHWR_NSAMPLES])
              (emit (Memcpy i offset) st))
      else (Inl (Fault OutOfBounds), st))"

definition drain ::
  "hwdefs \<Rightarrow> env \<Rightarrow> (nat \<Rightarrow> u32 list \<Rightarrow> 'a proc_scheme \<Rightarrow> 'a proc_scheme) \<Rightarrow>
   'a proc_scheme \<Rightarrow> (stop + unit) \<times> 'a proc_scheme" where
  "drain d env store st =
     (let (v, st) = reg_read env Regs (SHWR_BUF_STATUS_ADDR d) st;
          rnum = drop_bit (SHWR_BUF_RNUM_SHIFT d) v AND SHWR_BUF_RNUM_MASK d;
          offset = unat rnum * SHWR_NSAMPLES
      in seq (for_loop 0 SHWR_RAW_NCH_MAX (copy_channel env store offset) st) (\<lambda>_ st.
        let st = st\<lparr>sh := (sh st)\<lparr>sh_id := id_counter (gl st)\<rparr>\<rparr>;
            (v, st) = reg_read env Regs (SHWR_BUF_STATUS_ADDR d) st;
            st = st\<lparr>sh := (sh st)\<lparr>shwr_buf_status := v\<rparr>\<rparr>;
            (v, st) = reg_read env Regs (SHWR_BUF_START_ADDR d) st;
            st = st\<lparr>sh := (sh st)\<lparr>shwr_buf_start := v\<rparr>\<rparr>;
            (v, st) = reg_read env Regs (SHWR_BUF_TRIG_ID_ADDR d) st;
            st = st\<lparr>sh := (sh st)\<lparr>shwr_buf_trig_id := v\<rparr>\<rparr>;
            (v, st) = reg_read env TtRegs (TTAG_SHWR_SECONDS_ADDR d) st;
            st = st\<lparr>sh := (sh st)\<lparr>ttag_shwr_seconds := v\<rparr>\<rparr>;
            (v, st) = reg_read env TtRegs (TTAG_SHWR_NANOSEC_ADDR d) st;
            st = st\<lparr>sh := (sh st)\<lparr>ttag_shwr_nanosec := v\<rparr>\<rparr>;
            st = st\<lparr>sh := (sh st)\<lparr>rd := rnum\<rparr>\<rparr>;
            st = reg_write Regs (SHWR_BUF_CONTROL_ADDR d) rnum st;
            st = emit (IdCounter (id_counter (gl st) + 1))
                   (st\<lparr>gl := (gl st)\<lparr>id_counter := id_counter (gl st) + 1\<rparr>\<rparr>)
        in (Inr (), st)))"

definition acr_store :: "nat \<Rightarrow> u32 list \<Rightarrow> acr_proc \<Rightarrow> acr_proc" where
  "acr_store i ws st =
     st\<lparr>databuf := take (i * SHWR_NSAMPLES) (databuf st) @ ws @
                     drop (i * SHWR_NSAMPLES + length ws) (databuf st)\<rparr>"

text \<open>\<^verbatim>\<open>read_evt_read\<close> of the self-test tool: the drain's duration in microseconds, or - 1.\<close>

definition acr_read_evt_read ::
  "hwdefs \<Rightarrow> env \<Rightarrow> nat \<Rightarrow> acr_proc \<Rightarrow> ((stop + int) \<times> acr_proc) option" where
  "acr_read_evt_read d env fuel st =
     (case wait_trigger d env fuel (SIG_WAKEUP d) st of
        None \<Rightarrow> None
      | Some (sig, st1) \<Rightarrow>
          if sig = SIG_WAKEUP d then
            (let t0 = clock_us env (now st1) in
             case drain d env acr_store st1 of
               (Inl e, st2) \<Rightarrow> Some (Inl e, st2)
             | (Inr u, st2) \<Rightarrow> Some (Inr (clock_us env (now st2) - t0), st2))
          else Some (Inr (- 1), st1))"

subsection \<open>Self-test tool: \<^verbatim>\<open>main\<close> and process exit\<close>

datatype opt = Opt_d string | Opt_v | Opt_V | Opt_h | Opt_other

fun parse_opts :: "opt list \<Rightarrow> bool \<Rightarrow> acr_proc \<Rightarrow> (stop + bool) \<times> acr_proc" where
  "parse_opts [] verbose st = (Inr verbose, st)"
| "parse_opts (Opt_d optarg # rest) verbose st =
     parse_opts rest verbose (st\<lparr>adc_trace_fn := Some optarg\<rparr>)"
| "parse_opts (Opt_v # rest) verbose st = parse_opts rest True st"
| "parse_opts (Opt_V # rest) verbose st = (Inl (Exit EXIT_NOPER), st)"
| "parse_opts (Opt_h # rest) verbose st = (Inl (Exit EXIT_NOPER), st)"
| "parse_opts (Opt_other # rest) verbose st = (Inl (Exit EXIT_NOPER), st)"

text \<open>
  The alignment of \<^verbatim>\<open>databuf\<close> inside \<^verbatim>\<open>_databuf\<close>, on 32-bit addresses;
  \<^verbatim>\<open>_databuf + 8\<close> is 32 bytes further.
\<close>

definition align_problem :: "env \<Rightarrow> bool" where
  "align_problem env =
     (let a = databuf_addr env;
          p = (((a + 7) mod 2 ^ 32) div 8 * 8 + 4) mod 2 ^ 32
      in p < a \<or> p \<ge> a + 32 \<or> p mod 8 \<noteq> 4)"

definition open_adc :: "env \<Rightarrow> nat \<Rightarrow> acr_proc \<Rightarrow> (stop + unit) \<times> acr_proc" where
  "open_adc env i st =
     seq (openspidev env i st) (\<lambda>fd st1.
     seq (spi_init env fd st1) (\<lambda>_ st2.
       (Inr (), st2\<lparr>adcfd := (adcfd st2)[i := fd]\<rparr>)))"

definition atexit :: "handler \<Rightarrow> acr_proc \<Rightarrow> acr_proc" where
  "atexit h st = emit (Atexit h) (st\<lparr>exit_funcs := h # exit_funcs st\<rparr>)"

definition restore_trigger :: "hwdefs \<Rightarrow> acr_proc \<Rightarrow> (stop + unit) \<times> acr_proc" where
  "restore_trigger d st =
     (if regs (gl st) \<noteq> None
      then (Inr (), reg_write Regs (SHWR_BUF_TRIG_MASK_ADDR d) (saved_trigger st) st)
      else (Inr (), st))"

definition LED_trigger :: "hwdefs \<Rightarrow> acr_proc \<Rightarrow> acr_proc" where
  "LED_trigger d st =
     reg_write Regs (LED_CONTROL_ADDR d) 1 (reg_write Regs (LED_CONTROL_ADDR d) 0 st)"

text \<open>
  \<^verbatim>\<open>main\<close>. The options are given as \<^verbatim>\<open>getopt\<close> would deliver them. The scheduler
  request, \<^verbatim>\<open>dump_trace\<close> and the verbose message write to files and the error stream
  only and are left out. The result of \<^verbatim>\<open>read_evt_read\<close> is used for that message only.
\<close>

definition acr_main ::
  "hwdefs \<Rightarrow> env \<Rightarrow> nat \<Rightarrow> opt list \<Rightarrow> acr_proc \<Rightarrow> ((stop + int) \<times> acr_proc) option" where
  "acr_main d env fuel opts st =
     (if align_problem env then Some (Inl (Exit EXIT_BUFALIGN), st)
      else
        case
          seq (parse_opts opts False st) (\<lambda>verbose st.
          let st = st\<lparr>adcfd := replicate SHWR_RAW_NCH_MAX (- 1)\<rparr> in
          seq (for_loop 0 SHWR_RAW_NCH_MAX (open_adc env) st) (\<lambda>_ st.
          seq (read_evt_init_with acr_codes d env st) (\<lambda>_ st.
          let st = atexit H_read_evt_end st;
              (v, st) = reg_read env Regs (SHWR_BUF_TRIG_MASK_ADDR d) st;
              st = st\<lparr>saved_trigger := v\<rparr>;
              st = reg_write Regs (SHWR_BUF_TRIG_MASK_ADDR d) (SHWR_BUF_TRIG_LED d) st;
              st = atexit H_restore_trigger st;
              (f, st) = reg_read env TstctlRegs (USE_FAKE_ADDR d) st;
              st = reg_write TstctlRegs (USE_FAKE_ADDR d) (f OR push_bit (USE_FAKE_PPS_BIT d) 1) st
          in
          seq (adc_settestmode env RAMPON st) (\<lambda>_ st.
          let st = atexit H_adc_normal st;
              st = LED_trigger d st
          in (Inr (), st)))))
        of
          (Inl e, st) \<Rightarrow> Some (Inl e, st)
        | (Inr u, st) \<Rightarrow>
            (case acr_read_evt_read d env fuel st of
               None \<Rightarrow> None
             | Some (Inl e, st) \<Rightarrow> Some (Inl e, st)
             | Some (Inr duration, st) \<Rightarrow>
                 (case convert_databuf (sh st) (databuf st) (traces st) of
                    Inl f \<Rightarrow> Some (Inl (Fault f), st)
                  | Inr tr \<Rightarrow>
                      (let st = st\<lparr>traces := tr\<rparr>
                       in Some (Inr (evaluate_ramp (traces st)), st)))))"

text \<open>
  Process exit. \<^verbatim>\<open>exit\<close> and the return from \<^verbatim>\<open>main\<close> run the handlers registered
  with \<^verbatim>\<open>atexit\<close>, last registered first. A handler that itself calls \<^verbatim>\<open>exit\<close> is
  undefined in ISO C; the C library of the target goes on with the handlers not yet
  called and takes the new status, and so does the model.
\<close>

datatype status = Exited int | Killed stop

fun run_handler :: "hwdefs \<Rightarrow> env \<Rightarrow> handler \<Rightarrow> acr_proc \<Rightarrow> (stop + unit) \<times> acr_proc" where
  "run_handler d env H_read_evt_end st = read_evt_end env st"
| "run_handler d env H_restore_trigger st = restore_trigger d st"
| "run_handler d env H_adc_normal st = adc_normal env st"

fun run_exit_funcs ::
  "hwdefs \<Rightarrow> env \<Rightarrow> handler list \<Rightarrow> int \<Rightarrow> acr_proc \<Rightarrow> status \<times> acr_proc" where
  "run_exit_funcs d env [] code st = (Exited code, st)"
| "run_exit_funcs d env (h # hs) code st =
     (case run_handler d env h st of
        (Inr u, st1) \<Rightarrow> run_exit_funcs d env hs code st1
      | (Inl (Exit c), st1) \<Rightarrow> run_exit_funcs d env hs c st1
      | (Inl Abort, st1) \<Rightarrow> (Killed Abort, st1)
      | (Inl (Fault f), st1) \<Rightarrow> (Killed (Fault f), st1))"

definition acr_init :: acr_proc where
  "acr_init =
     \<lparr>events = [],
      gl = \<lparr>id_counter = 0, shwr_pt = replicate SHWR_RAW_NCH_MAX None, shwr_mem_size = 0,
            regs = None, tt_regs = None, tstctl_regs = None, regs_size = 0\<rparr>,
      sh = \<lparr>sh_id = 0, shwr_buf_status = 0, shwr_buf_start = 0, shwr_buf_trig_id = 0,
            ttag_shwr_seconds = 0, ttag_shwr_nanosec = 0, rd = 0\<rparr>,
      saved_trigger = 0,
      databuf = replicate DATASIZE 0,
      traces = replicate SHWR_NCH_MAX (replicate SHWR_NSAMPLES 0),
      adc_trace_fn = None,
      adcfd = replicate SHWR_RAW_NCH_MAX 0,
      failedadcfd = - 1,
      exit_funcs = []\<rparr>"

definition acr_process ::
  "hwdefs \<Rightarrow> env \<Rightarrow> nat \<Rightarrow> opt list \<Rightarrow> (status \<times> acr_proc) option" where
  "acr_process d env fuel opts =
     (case acr_main d env fuel opts acr_init of
        None \<Rightarrow> None
      | Some (Inr result, st) \<Rightarrow> Some (run_exit_funcs d env (exit_funcs st) result st)
      | Some (Inl (Exit code), st) \<Rightarrow> Some (run_exit_funcs d env (exit_funcs st) code st)
      | Some (Inl Abort, st) \<Rightarrow> Some (Killed Abort, st)
      | Some (Inl (Fault f), st) \<Rightarrow> Some (Killed (Fault f), st))"

subsection \<open>Streaming tool: \<^verbatim>\<open>netscope.c\<close>\<close>

definition PACKETSIZE :: nat where "PACKETSIZE = 1400"
definition FRAG_HEADER_SIZE :: nat where "FRAG_HEADER_SIZE = 8"
definition NS_DATASIZE :: nat where "NS_DATASIZE = 4 * SHWR_NSAMPLES * SHWR_RAW_NCH_MAX"
definition WBUFSIZE :: nat where "WBUFSIZE = FRAG_HEADER_SIZE + NS_DATASIZE"

record ns_proc = proc +
  workbuf :: "u8 list"

text \<open>Structs in memory, on the little-endian target.\<close>

definition le16 :: "u16 \<Rightarrow> u8 list" where
  "le16 w = [ucast w, ucast (drop_bit 8 w)]"

definition le32 :: "u32 \<Rightarrow> u8 list" where
  "le32 w = [ucast w, ucast (drop_bit 8 w), ucast (drop_bit 16 w), ucast (drop_bit 24 w)]"

definition rd16 :: "u8 list \<Rightarrow> u16" where
  "rd16 bs = ucast (bs ! 0) OR push_bit 8 (ucast (bs ! 1))"

definition rd32 :: "u8 list \<Rightarrow> u32" where
  "rd32 bs = ucast (bs ! 0) OR push_bit 8 (ucast (bs ! 1)) OR push_bit 16 (ucast (bs ! 2)) OR
             push_bit 24 (ucast (bs ! 3))"

definition shwr_header_bytes :: "shwr_header \<Rightarrow> u8 list" where
  "shwr_header_bytes h =
     le32 (sh_id h) @ le32 (shwr_buf_status h) @ le32 (shwr_buf_start h) @
     le32 (shwr_buf_trig_id h) @ le32 (ttag_shwr_seconds h) @ le32 (ttag_shwr_nanosec h) @
     le32 (rd h)"

record frag_header =
  fh_id :: u32
  fh_start :: u16
  fh_end :: u16

definition frag_header_bytes :: "frag_header \<Rightarrow> u8 list" where
  "frag_header_bytes fh = le32 (fh_id fh) @ le16 (fh_start fh) @ le16 (fh_end fh)"

definition frag_header_of :: "u8 list \<Rightarrow> frag_header" where
  "frag_header_of bs =
     \<lparr>fh_id = rd32 bs, fh_start = rd16 (drop 4 bs), fh_end = rd16 (drop 6 bs)\<rparr>"

definition store_bytes :: "u8 list \<Rightarrow> nat \<Rightarrow> u8 list \<Rightarrow> u8 list" where
  "store_bytes mem off bs = take off mem @ bs @ drop (off + length bs) mem"

definition sendto_or_exit :: "env \<Rightarrow> u8 list \<Rightarrow> ns_proc \<Rightarrow> (stop + unit) \<times> ns_proc" where
  "sendto_or_exit env packet st =
     (let (n, st1) = syscall env (SysSendto packet) st in
      if n \<noteq> int (length packet) then (Inl (Exit 1), st1) else (Inr (), st1))"

text \<open>
  The fragment loop of \<^verbatim>\<open>senddata\<close>, on offsets into \<^verbatim>\<open>workbuf\<close>: \<open>start_p\<close> and
  \<open>end_p\<close> are \<^verbatim>\<open>start - workbuf\<close> and \<^verbatim>\<open>end - workbuf\<close>. The header is written in
  place, over the eight bytes before the payload of the fragment.
\<close>

function send_frags ::
  "env \<Rightarrow> u32 \<Rightarrow> nat \<Rightarrow> nat \<Rightarrow> ns_proc \<Rightarrow> (stop + unit) \<times> ns_proc" where
  "send_frags env ident start_p end_p st =
     (if end_p < WBUFSIZE then
        (let end1 = (if start_p + PACKETSIZE > WBUFSIZE then WBUFSIZE else start_p + PACKETSIZE)
         in if start_p + FRAG_HEADER_SIZE \<le> length (workbuf st) \<and> end1 \<le> length (workbuf st)
            then
              (let fh = \<lparr>fh_id = ident, fh_start = word_of_nat start_p,
                         fh_end = word_of_nat (end1 - FRAG_HEADER_SIZE)\<rparr>;
                   st1 = st\<lparr>workbuf := store_bytes (workbuf st) start_p (frag_header_bytes fh)\<rparr>
               in case sendto_or_exit env (take (end1 - start_p) (drop start_p (workbuf st1))) st1 of
                    (Inl e, st2) \<Rightarrow> (Inl e, st2)
                  | (Inr u, st2) \<Rightarrow> send_frags env ident (end1 - FRAG_HEADER_SIZE) end1 st2)
            else (Inl (Fault OutOfBounds), st))
      else (Inr (), st))"
  by pat_completeness auto
termination
proof (relation "measure (\<lambda>(env, ident, start_p, end_p, st).
          if start_p + FRAG_HEADER_SIZE = end_p then WBUFSIZE - end_p else WBUFSIZE + 1)")
  show "wf (measure (\<lambda>(env, ident, start_p, end_p, st).
          if start_p + FRAG_HEADER_SIZE = end_p then WBUFSIZE - end_p else WBUFSIZE + 1))"
    by simp
next
  fix env :: env and ident :: u32 and start_p end_p :: nat and st :: ns_proc
    and x xa xb x1 and x2 :: ns_proc and b
  assume "end_p < WBUFSIZE"
    and x: "x = (if WBUFSIZE < start_p + PACKETSIZE then WBUFSIZE else start_p + PACKETSIZE)"
  have "FRAG_HEADER_SIZE \<le> x"
    by (simp add: x WBUFSIZE_def FRAG_HEADER_SIZE_def PACKETSIZE_def)
  moreover have "start_p + FRAG_HEADER_SIZE = end_p \<Longrightarrow> end_p < x"
    using \<open>end_p < WBUFSIZE\<close> by (auto simp: x FRAG_HEADER_SIZE_def PACKETSIZE_def)
  ultimately show "((env, ident, x - FRAG_HEADER_SIZE, x, x2), env, ident, start_p, end_p, st)
      \<in> measure (\<lambda>(env, ident, start_p, end_p, st).
          if start_p + FRAG_HEADER_SIZE = end_p then WBUFSIZE - end_p else WBUFSIZE + 1)"
    using \<open>end_p < WBUFSIZE\<close> by auto
qed

declare send_frags.simps [simp del]

definition senddata :: "env \<Rightarrow> ns_proc \<Rightarrow> (stop + unit) \<times> ns_proc" where
  "senddata env st =
     (let ident = sh_id (sh st);
          st = st\<lparr>sh := (sh st)\<lparr>sh_id := sh_id (sh st) OR 0x80000000\<rparr>\<rparr>
      in seq (sendto_or_exit env (shwr_header_bytes (sh st)) st) (\<lambda>_ st.
           send_frags env ident 0 0 st))"

definition ns_store :: "nat \<Rightarrow> u32 list \<Rightarrow> ns_proc \<Rightarrow> ns_proc" where
  "ns_store i ws st =
     st\<lparr>workbuf :=
          store_bytes (workbuf st) (FRAG_HEADER_SIZE + 4 * (i * SHWR_NSAMPLES))
            (concat (map le32 ws))\<rparr>"

text \<open>\<^verbatim>\<open>read_evt_read\<close> of the streaming tool: 0 after a drain, 1 without one.\<close>

definition ns_read_evt_read ::
  "hwdefs \<Rightarrow> env \<Rightarrow> nat \<Rightarrow> ns_proc \<Rightarrow> ((stop + int) \<times> ns_proc) option" where
  "ns_read_evt_read d env fuel st =
     (case wait_trigger d env fuel (SIG_WAKEUP d) st of
        None \<Rightarrow> None
      | Some (sig, st1) \<Rightarrow>
          if sig = SIG_WAKEUP d then
            (case drain d env ns_store st1 of
               (Inl e, st2) \<Rightarrow> Some (Inl e, st2)
             | (Inr u, st2) \<Rightarrow> Some (Inr 0, st2))
          else Some (Inr 1, st1))"

text \<open>
  One pass of the acquisition loop after \<^verbatim>\<open>controlrecv\<close> has found nothing: the value
  \<^verbatim>\<open>read_evt_read\<close> returns is not looked at, and \<^verbatim>\<open>senddata\<close> follows.
\<close>

definition ns_iteration ::
  "hwdefs \<Rightarrow> env \<Rightarrow> nat \<Rightarrow> ns_proc \<Rightarrow> ((stop + unit) \<times> ns_proc) option" where
  "ns_iteration d env fuel st =
     (case ns_read_evt_read d env fuel st of
        None \<Rightarrow> None
      | Some (Inl e, st1) \<Rightarrow> Some (Inl e, st1)
      | Some (Inr ret, st1) \<Rightarrow> Some (senddata env st1))"

fun ns_loop ::
  "hwdefs \<Rightarrow> env \<Rightarrow> nat \<Rightarrow> ns_proc \<Rightarrow> ((stop + unit) \<times> ns_proc) option" where
  "ns_loop d env 0 st = None"
| "ns_loop d env (Suc fuel) st =
     (let (msglen, st1) = syscall env SysRecvfrom st in
      if msglen \<le> 0 then
        (case ns_iteration d env fuel st1 of
           None \<Rightarrow> None
         | Some (Inl e, st2) \<Rightarrow> Some (Inl e, st2)
         | Some (Inr u, st2) \<Rightarrow> ns_loop d env fuel st2)
      else Some (Inr (), st1))"

definition socket_or_exit :: "env \<Rightarrow> ns_proc \<Rightarrow> (stop + int) \<times> ns_proc" where
  "socket_or_exit env st =
     (let (sock, st1) = syscall env SysSocket st in
      if sock = - 1 then (Inl (Exit 1), st1) else (Inr sock, st1))"

definition opensock :: "env \<Rightarrow> ns_proc \<Rightarrow> (stop + int) \<times> ns_proc" where
  "opensock env st =
     seq (socket_or_exit env st) (\<lambda>sock st1.
       let (r, st2) = syscall env SysInetAton st1 in
       if r = 0 then (Inl (Exit 1), st2) else (Inr sock, st2))"

definition opencontrolsock :: "env \<Rightarrow> ns_proc \<Rightarrow> (stop + int) \<times> ns_proc" where
  "opencontrolsock env st =
     seq (socket_or_exit env st) (\<lambda>sock st1.
       let (r, st2) = syscall env SysBind st1 in
       if r < 0 then (Inl (Exit 1), st2) else (Inr sock, st2))"

definition ns_main ::
  "hwdefs \<Rightarrow> env \<Rightarrow> nat \<Rightarrow> ns_proc \<Rightarrow> ((stop + int) \<times> ns_proc) option" where
  "ns_main d env fuel st =
     (case
        seq (opensock env st) (\<lambda>datasock st.
        seq (opencontrolsock env st) (\<lambda>controlsock st.
        seq (read_evt_init_with ns_codes d env st) (\<lambda>_ st.
        let st = reg_write Regs (SHWR_BUF_TRIG_MASK_ADDR d) (COMPATIBILITY_SHWR_BUF_TRIG_EXT d) st;
            (f, st) = reg_read env TstctlRegs (USE_FAKE_ADDR d) st;
            st = reg_write TstctlRegs (USE_FAKE_ADDR d) (f OR push_bit (USE_FAKE_PPS_BIT d) 1) st
        in (Inr (datasock, controlsock), st))))
      of
        (Inl e, st) \<Rightarrow> Some (Inl e, st)
      | (Inr (datasock, controlsock), st) \<Rightarrow>
          (case ns_loop d env fuel st of
             None \<Rightarrow> None
           | Some (Inl e, st) \<Rightarrow> Some (Inl e, st)
           | Some (Inr u, st) \<Rightarrow>
               (let st = snd (read_evt_end env st);
                    st = snd (syscall env (SysClose controlsock) st);
                    st = snd (syscall env (SysClose datasock) st)
                in Some (Inr 0, st))))"

definition ns_init :: ns_proc where
  "ns_init =
     \<lparr>events = [],
      gl = \<lparr>id_counter = 0, shwr_pt = replicate SHWR_RAW_NCH_MAX None, shwr_mem_size = 0,
            regs = None, tt_regs = None, tstctl_regs = None, regs_size = 0\<rparr>,
      sh = \<lparr>sh_id = 0, shwr_buf_status = 0, shwr_buf_start = 0, shwr_buf_trig_id = 0,
            ttag_shwr_seconds = 0, ttag_shwr_nanosec = 0, rd = 0\<rparr>,
      workbuf = replicate WBUFSIZE 0\<rparr>"

text \<open>The streaming tool registers no exit handler: its status is what \<^verbatim>\<open>main\<close> gives.\<close>

definition ns_process :: "hwdefs \<Rightarrow> env \<Rightarrow> nat \<Rightarrow> (status \<times> ns_proc) option" where
  "ns_process d env fuel =
     (case ns_main d env fuel ns_init of
        None \<Rightarrow> None
      | Some (Inr result, st) \<Rightarrow> Some (Exited result, st)
      | Some (Inl (Exit code), st) \<Rightarrow> Some (Exited code, st)
      | Some (Inl Abort, st) \<Rightarrow> Some (Killed Abort, st)
      | Some (Inl (Fault f), st) \<Rightarrow> Some (Killed (Fault f), st))"

subsection \<open>Remote ramp toggle: the command loop of \<^verbatim>\<open>adcramp.c\<close>\<close>

definition MSGLEN :: nat where "MSGLEN = 18"
definition NADC :: nat where "NADC = 5"
definition MASK_CMD :: u8 where "MASK_CMD = 0x40"
definition MASK_ON :: u8 where "MASK_ON = 0x20"
definition MASK_ADC :: u8 where "MASK_ADC = 0x1C"
definition SH_ADC :: nat where "SH_ADC = 2"
definition CMD_QUIT :: u8 where "CMD_QUIT = 0x21"
definition RESP_BASE :: u8 where "RESP_BASE = 0x20"
definition RESP_ERR :: u8 where "RESP_ERR = 0x10"

text \<open>
  \<open>rbuf\<close> is the global \<^verbatim>\<open>buf\<close>, \<open>radcfd\<close> and \<open>rc\<close> are \<^verbatim>\<open>adcfd\<close> and \<^verbatim>\<open>c\<close> of
  \<^verbatim>\<open>main\<close>.
\<close>

record ramp_proc = world +
  rbuf :: "u8 list"
  radcfd :: "int list"
  rc :: u8

text \<open>\<^verbatim>\<open>adc_write\<close> of \<^verbatim>\<open>adcramp.c\<close>: an incomplete transfer ends in \<^verbatim>\<open>abort()\<close>.\<close>

definition ramp_adc_write ::
  "env \<Rightarrow> int \<Rightarrow> int \<Rightarrow> int \<Rightarrow> ramp_proc \<Rightarrow> (stop + int) \<times> ramp_proc" where
  "ramp_adc_write env fd address cmd st =
     (let (n, st1) = syscall env (SysWrite fd (cmdstr address cmd)) st in
      if n \<noteq> 3 then (Inl Abort, st1) else (Inr 1, st1))"

text \<open>
  The scan of one message, from index \<open>i\<close> with the reply byte \<open>resp\<close> so far. The loop
  ends at a zero byte; the sentinel written before the scan guarantees one.
\<close>

function scan_cmds :: "env \<Rightarrow> nat \<Rightarrow> u8 \<Rightarrow> ramp_proc \<Rightarrow> (stop + u8) \<times> ramp_proc" where
  "scan_cmds env i resp st =
     (if i < length (rbuf st) then
        if rbuf st ! i \<noteq> 0 then
          (let st = st\<lparr>rc := rbuf st ! i\<rparr> in
           if rc st = CMD_QUIT then (Inr (resp + 1), st)
           else if rc st AND MASK_CMD \<noteq> 0 then
             (let adc = unat (drop_bit SH_ADC (rc st AND MASK_ADC)) in
              if adc \<ge> NADC then (Inr (resp OR RESP_ERR), st)
              else
                (case ramp_adc_write env (radcfd st ! adc) ADDR_CHS (uint (rc st AND 0x03)) st of
                   (Inl e, st1) \<Rightarrow> (Inl e, st1)
                 | (Inr u, st1) \<Rightarrow>
                     (case ramp_adc_write env (radcfd st ! adc) ADDR_TEST
                             (if rc st AND MASK_ON \<noteq> 0 then RAMPON else RAMPOFF) st1 of
                        (Inl e, st2) \<Rightarrow> (Inl e, st2)
                      | (Inr u, st2) \<Rightarrow>
                          scan_cmds env (i + 1) (resp + 1) st2)))
           else (Inr (resp OR RESP_ERR), st))
        else (Inr resp, st)
      else (Inl (Fault OutOfBounds), st))"
  by pat_completeness auto
termination
  by (relation "measure (\<lambda>(env, i, resp, st). length (rbuf st) - i)")
     (auto simp: ramp_adc_write_def syscall_def emit_def Let_def split: if_splits)

declare scan_cmds.simps [simp del]

definition recvfrom :: "env \<Rightarrow> ramp_proc \<Rightarrow> int \<times> ramp_proc" where
  "recvfrom env st =
     (let r = sys_ret env (now st) SysRecvfrom;
          dg = take MSGLEN (datagram env (now st))
      in if r < 0 then (r, emit (Call SysRecvfrom r) st)
         else (int (length dg), emit (Received dg) (st\<lparr>rbuf := dg @ drop (length dg) (rbuf st)\<rparr>)))"

text \<open>One pass of the \<^verbatim>\<open>do ... while\<close> body.\<close>

definition ramp_iteration :: "env \<Rightarrow> ramp_proc \<Rightarrow> (stop + unit) \<times> ramp_proc" where
  "ramp_iteration env st =
     (let (ready, st) = syscall env SysSelect st in
      if ready = 0 then (Inr (), st)
      else
        (let (len, st) = recvfrom env st in
         if len \<noteq> int MSGLEN then (Inr (), st)
         else
           (let st = st\<lparr>rbuf := (rbuf st)[MSGLEN - 1 := 0]\<rparr> in
            seq (scan_cmds env 0 RESP_BASE st) (\<lambda>resp st.
              let st = st\<lparr>rbuf := (rbuf st)[0 := resp]\<rparr>;
                  (r, st) = syscall env (SysSendto (rbuf st)) st
              in (Inr (), st)))))"

fun ramp_loop :: "env \<Rightarrow> nat \<Rightarrow> ramp_proc \<Rightarrow> ((stop + unit) \<times> ramp_proc) option" where
  "ramp_loop env 0 st = None"
| "ramp_loop env (Suc fuel) st =
     (case ramp_iteration env st of
        (Inl e, st1) \<Rightarrow> Some (Inl e, st1)
      | (Inr u, st1) \<Rightarrow> if rc st1 \<noteq> CMD_QUIT then ramp_loop env fuel st1 else Some (Inr (), st1))"

subsection \<open>Vocabulary for statements about traces\<close>

fun is_write_on :: "int \<Rightarrow> event \<Rightarrow> bool" where
  "is_write_on fd (Call (SysWrite f bytes) n) = (f = fd)"
| "is_write_on fd e = False"

definition new_events :: "'a proc_scheme \<Rightarrow> 'a proc_scheme \<Rightarrow> event list" where
  "new_events st st' = drop (length (events st)) (events st')"

text \<open>
  Vocabulary for statements about the device loop. \<open>dev_events\<close> is what a round of
  \<^verbatim>\<open>adc_settestmode\<close> leaves in the trace for one device when its writes complete;
  \<open>round_events\<close> collects the devices before index \<open>k\<close>.
\<close>

definition dev_events :: "int \<Rightarrow> int \<Rightarrow> nat \<Rightarrow> int \<Rightarrow> event list" where
  "dev_events failed testmode i fd =
     (if fd \<ge> 0 then
        if fd = failed then [Stderr (IgnoredFailingADC i)]
        else [Call (SysWrite fd (cmdstr ADDR_CHS MASK_CHS)) 3,
              Call (SysWrite fd (cmdstr ADDR_TEST testmode)) 3]
      else [Stderr (SpiNotOpen i)])"

definition round_events :: "int \<Rightarrow> int \<Rightarrow> int list \<Rightarrow> nat \<Rightarrow> event list" where
  "round_events failed testmode fds k =
     concat (map (\<lambda>j. dev_events failed testmode j (fds ! j)) [0..<k])"

definition write_failed_at ::
  "env \<Rightarrow> int \<Rightarrow> acr_proc \<Rightarrow> acr_proc \<Rightarrow> nat \<Rightarrow> bool" where
  "write_failed_at env testmode st st' k \<longleftrightarrow>
     k < SHWR_RAW_NCH_MAX \<and> adcfd st ! k \<ge> 0 \<and> adcfd st ! k \<noteq> failedadcfd st \<and>
     adcfd st' = adcfd st \<and> failedadcfd st' = adcfd st ! k \<and>
     (\<exists>pre bytes n.
        events st' = events st @ round_events (failedadcfd st) testmode (adcfd st) k @ pre @
                     [Call (SysWrite (adcfd st ! k) bytes) n] \<and>
        n \<noteq> 3 \<and>
        sys_ret env (length (events st @ round_events (failedadcfd st) testmode (adcfd st) k @ pre))
          (SysWrite (adcfd st ! k) bytes) = n \<and>
        (pre = [] \<or> pre = [Call (SysWrite (adcfd st ! k) (cmdstr ADDR_CHS MASK_CHS)) 3]))"




definition call_effect :: "env \<Rightarrow> acr_proc \<Rightarrow> (stop + unit) \<times> acr_proc \<Rightarrow> bool" where
  "call_effect env st res \<longleftrightarrow>
     (\<exists>new. events (snd res) = events st @ new \<and>
        (\<forall>e\<in>set new. \<not> is_write_on (failedadcfd st) e)) \<and>
     (fst res = Inr () \<and> failedadcfd (snd res) = failedadcfd st \<or>
      fst res = Inl (Exit EXIT_SPIWRITE) \<and>
      (\<exists>fd bytes n t. last (events (snd res)) = Call (SysWrite fd bytes) n \<and>
         fd \<noteq> failedadcfd st \<and> n \<noteq> 3 \<and> sys_ret env t (SysWrite fd bytes) = n))"

text \<open>Concrete environments and states for the examples.\<close>

definition test_env :: "(nat \<Rightarrow> syscall \<Rightarrow> int) \<Rightarrow> env" where
  "test_env answers =
     \<lparr>sys_ret = answers, hw_reg = (\<lambda>t blk addr. 0), hw_shwr = (\<lambda>t ch k. 0),
      clock_us = (\<lambda>t. 0), datagram = (\<lambda>t. []), databuf_addr = 0\<rparr>"


definition acr_with :: "int list \<Rightarrow> int \<Rightarrow> acr_proc" where
  "acr_with fds failed = acr_init\<lparr>adcfd := fds, failedadcfd := failed\<rparr>"

text \<open>
  Vocabulary for the event reader: register writes in a trace, a buffer store that
  touches neither the trace nor the header, and a slot that lies inside the mapped
  windows of all channels.
\<close>

fun is_reg_write :: "event \<Rightarrow> bool" where
  "is_reg_write (RegWrite blk addr v) = True"
| "is_reg_write e = False"

definition store_frame :: "(nat \<Rightarrow> u32 list \<Rightarrow> 'a proc_scheme \<Rightarrow> 'a proc_scheme) \<Rightarrow> bool" where
  "store_frame store \<longleftrightarrow>
     (\<forall>i ws s. events (store i ws s) = events s \<and> gl (store i ws s) = gl s \<and>
        sh (store i ws s) = sh s)"

definition window_fits :: "'a proc_scheme \<Rightarrow> nat \<Rightarrow> bool" where
  "window_fits st offset \<longleftrightarrow>
     4 * int (offset + SHWR_NSAMPLES) \<le> shwr_mem_size (gl st) \<and>
     (\<forall>i<SHWR_RAW_NCH_MAX. shwr_pt (gl st) ! i \<noteq> None)"

definition slot_of :: "hwdefs \<Rightarrow> u32 \<Rightarrow> u32" where
  "slot_of d v = drop_bit (SHWR_BUF_RNUM_SHIFT d) v AND SHWR_BUF_RNUM_MASK d"

text \<open>
  The events of a drain that starts at tick \<open>t\<close> with the id counter at \<open>idc\<close>, in order,
  and the header it leaves.
\<close>

definition drain_events :: "hwdefs \<Rightarrow> env \<Rightarrow> nat \<Rightarrow> u32 \<Rightarrow> event list" where
  "drain_events d env t idc =
     [RegRead Regs (SHWR_BUF_STATUS_ADDR d) (hw_reg env t Regs (SHWR_BUF_STATUS_ADDR d))] @
     map (\<lambda>i. Memcpy i (unat (slot_of d (hw_reg env t Regs (SHWR_BUF_STATUS_ADDR d))) * SHWR_NSAMPLES))
       [0..<SHWR_RAW_NCH_MAX] @
     [RegRead Regs (SHWR_BUF_STATUS_ADDR d) (hw_reg env (t + 6) Regs (SHWR_BUF_STATUS_ADDR d)),
      RegRead Regs (SHWR_BUF_START_ADDR d) (hw_reg env (t + 7) Regs (SHWR_BUF_START_ADDR d)),
      RegRead Regs (SHWR_BUF_TRIG_ID_ADDR d) (hw_reg env (t + 8) Regs (SHWR_BUF_TRIG_ID_ADDR d)),
      RegRead TtRegs (TTAG_SHWR_SECONDS_ADDR d) (hw_reg env (t + 9) TtRegs (TTAG_SHWR_SECONDS_ADDR d)),
      RegRead TtRegs (TTAG_SHWR_NANOSEC_ADDR d) (hw_reg env (t + 10) TtRegs (TTAG_SHWR_NANOSEC_ADDR d)),
      RegWrite Regs (SHWR_BUF_CONTROL_ADDR d)
        (slot_of d (hw_reg env t Regs (SHWR_BUF_STATUS_ADDR d))),
      IdCounter (idc + 1)]"

definition drained_header :: "hwdefs \<Rightarrow> env \<Rightarrow> nat \<Rightarrow> u32 \<Rightarrow> shwr_header" where
  "drained_header d env t idc =
     \<lparr>sh_id = idc,
      shwr_buf_status = hw_reg env (t + 6) Regs (SHWR_BUF_STATUS_ADDR d),
      shwr_buf_start = hw_reg env (t + 7) Regs (SHWR_BUF_START_ADDR d),
      shwr_buf_trig_id = hw_reg env (t + 8) Regs (SHWR_BUF_TRIG_ID_ADDR d),
      ttag_shwr_seconds = hw_reg env (t + 9) TtRegs (TTAG_SHWR_SECONDS_ADDR d),
      ttag_shwr_nanosec = hw_reg env (t + 10) TtRegs (TTAG_SHWR_NANOSEC_ADDR d),
      rd = slot_of d (hw_reg env t Regs (SHWR_BUF_STATUS_ADDR d))\<rparr>"

text \<open>Example values for the constants of the missing headers (not the real ones).\<close>

definition test_defs :: hwdefs where
  "test_defs =
     \<lparr>SHWR_BUF_STATUS_ADDR = 10, SHWR_BUF_START_ADDR = 11, SHWR_BUF_TRIG_ID_ADDR = 12,
      SHWR_BUF_CONTROL_ADDR = 13, SHWR_BUF_TRIG_MASK_ADDR = 14, LED_CONTROL_ADDR = 15,
      TTAG_SHWR_SECONDS_ADDR = 20, TTAG_SHWR_NANOSEC_ADDR = 21,
      USE_FAKE_ADDR = 30, USE_FAKE_PPS_BIT = 0,
      SHWR_BUF_NFULL_MASK = 7, SHWR_BUF_NFULL_SHIFT = 4,
      SHWR_BUF_RNUM_MASK = 3, SHWR_BUF_RNUM_SHIFT = 2,
      SHWR_BUF_TRIG_LED = 16, COMPATIBILITY_SHWR_BUF_TRIG_EXT = 1,
      SHWR_MEM_DEPTH = 8192, SHWR_MEM_NBUF = 4, PAGESIZE = 4096, SIG_WAKEUP = 48\<rparr>"

text \<open>
  An environment whose status register always reads \<open>status\<close> and whose other registers
  read 0; \<^verbatim>\<open>sigwaitinfo\<close> answers \<open>sig\<close>.
\<close>

definition status_env :: "u32 \<Rightarrow> int \<Rightarrow> env" where
  "status_env status sig =
     \<lparr>sys_ret = (\<lambda>t c. case c of SysSigwaitinfo \<Rightarrow> sig | _ \<Rightarrow> 0),
      hw_reg = (\<lambda>t blk addr. if blk = Regs \<and> addr = 10 then status else 0),
      hw_shwr = (\<lambda>t ch k. 0), clock_us = (\<lambda>t. int t), datagram = (\<lambda>t. []),
      databuf_addr = 0\<rparr>"

definition mapped_gl :: read_evt_global where
  "mapped_gl =
     \<lparr>id_counter = 7, shwr_pt = map (\<lambda>i. Some (Shwr i)) [0..<5], shwr_mem_size = 32768,
      regs = Some Regs, tt_regs = Some TtRegs, tstctl_regs = Some TstctlRegs, regs_size = 4096\<rparr>"

definition acr_mapped :: acr_proc where
  "acr_mapped = acr_init\<lparr>gl := mapped_gl\<rparr>"

text \<open>
  Vocabulary for the register map: the regions a trace maps successfully, the regions it
  unmaps, and the exit handlers it registers, each in order of occurrence.
\<close>

fun mapped_of :: "event \<Rightarrow> region list" where
  "mapped_of (Call (SysMmap r) pt) = (if pt = - 1 then [] else [r])"
| "mapped_of e = []"

fun unmapped_of :: "event \<Rightarrow> region list" where
  "unmapped_of (Call (SysMunmap r) ret) = [r]"
| "unmapped_of e = []"

fun registered_of :: "event \<Rightarrow> handler list" where
  "registered_of (Atexit h) = [h]"
| "registered_of e = []"

definition mapped :: "event list \<Rightarrow> region list" where
  "mapped es = concat (map mapped_of es)"

definition unmapped :: "event list \<Rightarrow> region list" where
  "unmapped es = concat (map unmapped_of es)"

definition registered :: "event list \<Rightarrow> handler list" where
  "registered es = concat (map registered_of es)"

definition all_regions :: "region list" where
  "all_regions = [Regs, TtRegs, TstctlRegs] @ map Shwr [0..<SHWR_RAW_NCH_MAX]"

definition all_mapped :: "read_evt_global \<Rightarrow> bool" where
  "all_mapped g \<longleftrightarrow>
     regs g = Some Regs \<and> tt_regs g = Some TtRegs \<and> tstctl_regs g = Some TstctlRegs \<and>
     (\<forall>i<SHWR_RAW_NCH_MAX. shwr_pt g ! i = Some (Shwr i))"

text \<open>An environment in which every system call answers 0.\<close>

definition calm_env :: env where
  "calm_env = test_env (\<lambda>t c. 0)"

text \<open>
  A step of the self-test tool is quiet when it leaves the exit handlers and the mapped
  pointers alone and adds neither a mapping, an unmapping nor a registration to the trace.
\<close>

definition quiet :: "acr_proc \<Rightarrow> acr_proc \<Rightarrow> bool" where
  "quiet st st' \<longleftrightarrow>
     exit_funcs st' = exit_funcs st \<and>
     regs (gl st') = regs (gl st) \<and> tt_regs (gl st') = tt_regs (gl st) \<and>
     tstctl_regs (gl st') = tstctl_regs (gl st) \<and> shwr_pt (gl st') = shwr_pt (gl st) \<and>
     (\<exists>new. events st' = events st @ new \<and> mapped new = [] \<and> unmapped new = [] \<and>
        registered new = [])"

text \<open>
  The state of the self-test tool before any handler is registered, and once the
  handlers \<open>hs\<close> are registered with every region mapped and none unmapped.
\<close>

definition unregistered :: "acr_proc \<Rightarrow> bool" where
  "unregistered st \<longleftrightarrow>
     registered (events st) = [] \<and> exit_funcs st = [] \<and> unmapped (events st) = []"

definition ready :: "handler list \<Rightarrow> acr_proc \<Rightarrow> bool" where
  "ready hs st \<longleftrightarrow>
     all_mapped (gl st) \<and> mapped (events st) = all_regions \<and> unmapped (events st) = [] \<and>
     registered (events st) = rev hs \<and> exit_funcs st = hs"

definition setup_outcome :: "(stop + unit) \<times> acr_proc \<Rightarrow> bool" where
  "setup_outcome res =
     (case res of
        (Inl e, st) \<Rightarrow>
          unregistered st \<or> ready [H_restore_trigger, H_read_evt_end] st \<and> e = Exit EXIT_SPIWRITE
      | (Inr u, st) \<Rightarrow> ready [H_adc_normal, H_restore_trigger, H_read_evt_end] st)"

definition main_outcome :: "(stop + int) \<times> acr_proc \<Rightarrow> bool" where
  "main_outcome res =
     (case res of (out, st) \<Rightarrow>
        unregistered st \<and> (\<exists>e. out = Inl e) \<or>
        ready [H_restore_trigger, H_read_evt_end] st \<and> out = Inl (Exit EXIT_SPIWRITE) \<or>
        ready [H_adc_normal, H_restore_trigger, H_read_evt_end] st \<and>
          (out = Inl (Fault OutOfBounds) \<or> out = Inr (evaluate_ramp (traces st))))"

text \<open>The trace of \<^verbatim>\<open>read_evt_end\<close> on a fully mapped state, from tick \<open>t\<close> on.\<close>

definition unmap_events :: "env \<Rightarrow> nat \<Rightarrow> event list" where
  "unmap_events env t =
     map (\<lambda>(k, r). Call (SysMunmap r) (sys_ret env (t + k) (SysMunmap r)))
       (zip [0..<8] all_regions)"

text \<open>An environment in which every SPI transfer completes and every other call answers 0.\<close>

definition spi_env :: env where
  "spi_env = test_env (\<lambda>t c. case c of SysWrite fd bytes \<Rightarrow> 3 | _ \<Rightarrow> 0)"

text \<open>
  The same frame for the streaming tool: a step is steady when it leaves the mapped
  pointers alone and adds neither a mapping nor an unmapping to the trace.
\<close>

definition steady :: "ns_proc \<Rightarrow> ns_proc \<Rightarrow> bool" where
  "steady st st' \<longleftrightarrow>
     regs (gl st') = regs (gl st) \<and> tt_regs (gl st') = tt_regs (gl st) \<and>
     tstctl_regs (gl st') = tstctl_regs (gl st) \<and> shwr_pt (gl st') = shwr_pt (gl st) \<and>
     (\<exists>new. events st' = events st @ new \<and> mapped new = [] \<and> unmapped new = [])"

text \<open>
  The streaming tool before its acquisition loop: either an exit with nothing unmapped,
  or all regions mapped and none unmapped.
\<close>

definition ns_mapped :: "ns_proc \<Rightarrow> bool" where
  "ns_mapped st \<longleftrightarrow>
     all_mapped (gl st) \<and> mapped (events st) = all_regions \<and> unmapped (events st) = []"

definition ns_setup_outcome :: "(stop + int \<times> int) \<times> ns_proc \<Rightarrow> bool" where
  "ns_setup_outcome res =
     (case res of (Inl e, st) \<Rightarrow> unmapped (events st) = [] | (Inr socks, st) \<Rightarrow> ns_mapped st)"

text \<open>
  Environments for the streaming tool: the address conversion succeeds, every other call
  answers 0 (so a \<^verbatim>\<open>sendto\<close> sends nothing), and the control socket delivers \<open>msg\<close>
  bytes.
\<close>

definition net_env :: "int \<Rightarrow> env" where
  "net_env msg =
     test_env (\<lambda>t c. case c of SysInetAton \<Rightarrow> 1 | SysRecvfrom \<Rightarrow> msg | _ \<Rightarrow> 0)"

text \<open>
  An environment in which the devices open as descriptors 3 to 7 and every SPI transfer
  completes but one: the write that switches the ramp of descriptor 5 off.
\<close>

definition late_env :: env where
  "late_env =
     test_env (\<lambda>t c. case c of
         SysOpenSpi adc \<Rightarrow> 3 + int adc
       | SysWrite fd bytes \<Rightarrow> if fd = 5 \<and> bytes = cmdstr ADDR_TEST RAMPOFF then - 1 else 3
       | _ \<Rightarrow> 0)"

text \<open>
  The words of slot offset \<open>offset\<close> that the copy loop reads when it starts at tick \<open>t\<close>:
  channel \<open>i\<close> is read at tick \<open>t + i\<close>.
\<close>

definition slot_words :: "env \<Rightarrow> nat \<Rightarrow> nat \<Rightarrow> nat \<Rightarrow> u32 list" where
  "slot_words env t offset i = map (hw_shwr env (t + i) i) [offset ..< offset + SHWR_NSAMPLES]"

definition slot_samples :: "env \<Rightarrow> nat \<Rightarrow> nat \<Rightarrow> u32 list" where
  "slot_samples env t offset = concat (map (slot_words env t offset) [0..<SHWR_RAW_NCH_MAX])"

text \<open>
  An environment like \<open>status_env 20 48\<close> whose ring buffers hold recognisable words:
  word \<open>k\<close> of channel \<open>ch\<close> reads \<open>10000 * ch + k\<close>.
\<close>

definition sample_env :: env where
  "sample_env = (status_env 20 48)\<lparr>hw_shwr := (\<lambda>t ch k. word_of_nat (10000 * ch + k))\<rparr>"

definition ns_ready :: ns_proc where
  "ns_ready = ns_init\<lparr>gl := mapped_gl\<rparr>"

text \<open>
  Vocabulary for the SPI writes of a whole run: the writes in a trace, those whose
  transfer did not complete, and the two states a run of the self-test tool can be in.
  It is clean when no write has failed and no device is marked; it is stopped when
  exactly one write has failed, that write is the last SPI write of the trace, and its
  device is the marked one.
\<close>

fun is_spi_write :: "event \<Rightarrow> bool" where
  "is_spi_write (Call (SysWrite fd bytes) n) = True"
| "is_spi_write e = False"




text \<open>A step is silent when it writes to no device and leaves the mark alone.\<close>

definition silent :: "acr_proc \<Rightarrow> acr_proc \<Rightarrow> bool" where
  "silent st st' \<longleftrightarrow>
     failedadcfd st' = failedadcfd st \<and>
     (\<exists>new. events st' = events st @ new \<and> (\<forall>e\<in>set new. \<not> is_spi_write e))"



section \<open>Verification\<close>

subsection \<open>Sample unpacker\<close>

lemma and_fff: "(w :: u32) AND 0xfff = take_bit 12 w"
proof -
  have "(0xfff :: u32) = mask 12" by (simp add: mask_eq_exp_minus_1)
  then show ?thesis by (simp add: take_bit_eq_mask)
qed

lemma unat_lo12: "unat (lo12 w) = unat w mod 4096"
  apply (simp only: lo12_def and_fff unsigned_ucast_eq unsigned_take_bit_eq)
  apply (simp add: take_bit_eq_mod mod_mod_cancel)
  done

lemma unat_hi12: "unat (hi12 w) = (unat w div 65536) mod 4096"
  apply (simp only: hi12_def and_fff unsigned_ucast_eq unsigned_take_bit_eq unsigned_drop_bit_eq)
  apply (simp add: take_bit_eq_mod drop_bit_eq_div)
  apply (subst mod_less[of "unat w" 4294967296])
  using unsigned_less[of w, where 'a=nat] apply simp
  apply (rule refl)
  done

lemma trace_shape_set_sample:
  "trace_shape tr \<Longrightarrow> trace_shape (set_sample tr ch i v)"
  by (cases "ch < length tr") (auto simp: trace_shape_def set_sample_def list_all_length nth_list_update)

lemma set_sample_nth:
  "trace_shape tr \<Longrightarrow> ch < SHWR_NCH_MAX \<Longrightarrow> i < SHWR_NSAMPLES \<Longrightarrow>
   set_sample tr ch i v ! ch' ! j = (if ch' = ch \<and> j = i then v else tr ! ch' ! j)"
  by (auto simp: trace_shape_def set_sample_def list_all_length nth_list_update)

lemma convert_samples_spec:
  assumes "trace_shape tr" "adc < SHWR_RAW_NCH_MAX"
    and "stop = base + SHWR_NSAMPLES" "stop \<le> length db"
    and "off < SHWR_NSAMPLES" "i \<le> SHWR_NSAMPLES"
  shows "\<exists>tr'. convert_samples db adc stop (base + off) i tr = Inr tr' \<and> trace_shape tr' \<and>
     (\<forall>ch j. ch < SHWR_NCH_MAX \<longrightarrow> j < SHWR_NSAMPLES \<longrightarrow>
        tr' ! ch ! j =
          (if i \<le> j \<and> ch = 2 * adc then lo12 (db ! (base + (off + (j - i)) mod SHWR_NSAMPLES))
           else if i \<le> j \<and> ch = 2 * adc + 1 then hi12 (db ! (base + (off + (j - i)) mod SHWR_NSAMPLES))
           else tr ! ch ! j))"
  using assms
proof (induction "SHWR_NSAMPLES - i" arbitrary: i off tr)
  case 0
  then have "i = SHWR_NSAMPLES" by simp
  then show ?case using 0 by (subst convert_samples.simps) auto
next
  case (Suc n)
  then have i: "i < SHWR_NSAMPLES" by simp
  have rd: "deref db (base + off) = Inr (db ! (base + off))"
    using Suc.prems by (simp add: deref_def)
  define w where "w = db ! (base + off)"
  define tr2 where "tr2 = set_sample (set_sample tr (2 * adc) i (lo12 w)) (2 * adc + 1) i (hi12 w)"
  define off' where "off' = (off + 1) mod SHWR_NSAMPLES"
  have sh2: "trace_shape tr2"
    unfolding tr2_def using Suc.prems(1) by (intro trace_shape_set_sample)
  have nxt: "(if Suc (base + off) = stop then stop - SHWR_NSAMPLES else Suc (base + off)) = base + off'"
    using Suc.prems(3,5) unfolding off'_def
    by (auto simp: mod_if)
  have step: "convert_samples db adc stop (base + off) i tr =
              convert_samples db adc stop (base + off') (i + 1) tr2"
    using i rd nxt
    by (subst convert_samples.simps) (simp add: Let_def w_def tr2_def lo12_def hi12_def del: if_split)
  have off'_lt: "off' < SHWR_NSAMPLES"
    unfolding off'_def using Suc.prems(5) by simp
  have n: "n = SHWR_NSAMPLES - (i + 1)" using Suc.hyps(2) by simp
  from Suc.hyps(1)[OF n sh2 Suc.prems(2,3,4) off'_lt] i
  obtain tr' where r: "convert_samples db adc stop (base + off') (i + 1) tr2 = Inr tr'"
    and sh': "trace_shape tr'"
    and vals: "\<forall>ch j. ch < SHWR_NCH_MAX \<longrightarrow> j < SHWR_NSAMPLES \<longrightarrow>
        tr' ! ch ! j =
          (if i + 1 \<le> j \<and> ch = 2 * adc then lo12 (db ! (base + (off' + (j - (i + 1))) mod SHWR_NSAMPLES))
           else if i + 1 \<le> j \<and> ch = 2 * adc + 1 then hi12 (db ! (base + (off' + (j - (i + 1))) mod SHWR_NSAMPLES))
           else tr2 ! ch ! j)"
    by auto
  have chs: "2 * adc < SHWR_NCH_MAX" "2 * adc + 1 < SHWR_NCH_MAX"
    using Suc.prems(2) by (simp_all add: SHWR_NCH_MAX_def)
  have tr2_nth: "tr2 ! ch ! j =
      (if ch = 2 * adc \<and> j = i then lo12 w
       else if ch = 2 * adc + 1 \<and> j = i then hi12 w else tr ! ch ! j)" for ch j
    unfolding tr2_def
    using set_sample_nth[OF trace_shape_set_sample[OF Suc.prems(1)] chs(2) i]
          set_sample_nth[OF Suc.prems(1) chs(1) i]
    by auto
  have modstep: "(off' + (j - (i + 1))) mod SHWR_NSAMPLES = (off + (j - i)) mod SHWR_NSAMPLES"
    if "i + 1 \<le> j" for j
  proof -
    have "(off' + (j - (i + 1))) mod SHWR_NSAMPLES = ((off + 1) + (j - (i + 1))) mod SHWR_NSAMPLES"
      unfolding off'_def by (simp add: mod_add_left_eq)
    also have "(off + 1) + (j - (i + 1)) = off + (j - i)" using that by simp
    finally show ?thesis .
  qed
  have here: "(off + (i - i)) mod SHWR_NSAMPLES = off" using Suc.prems(5) by simp
  show ?case
  proof (intro exI conjI allI impI)
    show "convert_samples db adc stop (base + off) i tr = Inr tr'" using step r by simp
    show "trace_shape tr'" by (rule sh')
  next
    fix ch j assume ch: "ch < SHWR_NCH_MAX" and j: "j < SHWR_NSAMPLES"
    consider "j = i" | "i + 1 \<le> j" | "j < i" by linarith
    then show "tr' ! ch ! j =
          (if i \<le> j \<and> ch = 2 * adc then lo12 (db ! (base + (off + (j - i)) mod SHWR_NSAMPLES))
           else if i \<le> j \<and> ch = 2 * adc + 1 then hi12 (db ! (base + (off + (j - i)) mod SHWR_NSAMPLES))
           else tr ! ch ! j)"
    proof cases
      case 1
      then show ?thesis using vals ch j tr2_nth[of ch j] here by (simp add: w_def)
    next
      case 2
      then show ?thesis using vals ch j tr2_nth[of ch j] modstep[OF 2] by simp
    next
      case 3
      then show ?thesis using vals ch j tr2_nth[of ch j] by simp
    qed
  qed
qed

lemma convert_channels_spec:
  assumes "trace_shape tr" "length db = DATASIZE" "start < SHWR_NSAMPLES" "adc \<le> SHWR_RAW_NCH_MAX"
  shows "\<exists>tr'. convert_channels db start adc tr = Inr tr' \<and> trace_shape tr' \<and>
     (\<forall>c j. c < SHWR_RAW_NCH_MAX \<longrightarrow> j < SHWR_NSAMPLES \<longrightarrow>
        tr' ! (2 * c) ! j =
          (if adc \<le> c then lo12 (db ! (c * SHWR_NSAMPLES + (start + j) mod SHWR_NSAMPLES))
           else tr ! (2 * c) ! j) \<and>
        tr' ! (2 * c + 1) ! j =
          (if adc \<le> c then hi12 (db ! (c * SHWR_NSAMPLES + (start + j) mod SHWR_NSAMPLES))
           else tr ! (2 * c + 1) ! j))"
  using assms
proof (induction "SHWR_RAW_NCH_MAX - adc" arbitrary: adc tr)
  case 0
  then have "adc = SHWR_RAW_NCH_MAX" by simp
  then show ?case using 0 by (subst convert_channels.simps) auto
next
  case (Suc n)
  then have adc: "adc < SHWR_RAW_NCH_MAX" by simp
  have stop: "(adc + 1) * SHWR_NSAMPLES = adc * SHWR_NSAMPLES + SHWR_NSAMPLES" by simp
  have le: "(adc + 1) * SHWR_NSAMPLES \<le> length db"
  proof -
    have "(adc + 1) * SHWR_NSAMPLES \<le> SHWR_RAW_NCH_MAX * SHWR_NSAMPLES"
      using adc by (intro mult_le_mono1) simp
    then show ?thesis using Suc.prems(2) by (simp add: DATASIZE_def mult.commute)
  qed
  from convert_samples_spec[OF Suc.prems(1) adc stop le Suc.prems(3), of 0]
  obtain tr1 where r1: "convert_samples db adc ((adc + 1) * SHWR_NSAMPLES) (adc * SHWR_NSAMPLES + start) 0 tr = Inr tr1"
    and sh1: "trace_shape tr1"
    and v1: "\<And>ch j. ch < SHWR_NCH_MAX \<Longrightarrow> j < SHWR_NSAMPLES \<Longrightarrow>
        tr1 ! ch ! j =
          (if ch = 2 * adc then lo12 (db ! (adc * SHWR_NSAMPLES + (start + j) mod SHWR_NSAMPLES))
           else if ch = 2 * adc + 1 then hi12 (db ! (adc * SHWR_NSAMPLES + (start + j) mod SHWR_NSAMPLES))
           else tr ! ch ! j)"
    by auto
  have n: "n = SHWR_RAW_NCH_MAX - (adc + 1)" using Suc.hyps(2) by simp
  from Suc.hyps(1)[OF n sh1 Suc.prems(2,3)] adc
  obtain tr' where r: "convert_channels db start (adc + 1) tr1 = Inr tr'"
    and sh': "trace_shape tr'"
    and v: "\<And>c j. c < SHWR_RAW_NCH_MAX \<Longrightarrow> j < SHWR_NSAMPLES \<Longrightarrow>
        tr' ! (2 * c) ! j =
          (if adc + 1 \<le> c then lo12 (db ! (c * SHWR_NSAMPLES + (start + j) mod SHWR_NSAMPLES))
           else tr1 ! (2 * c) ! j) \<and>
        tr' ! (2 * c + 1) ! j =
          (if adc + 1 \<le> c then hi12 (db ! (c * SHWR_NSAMPLES + (start + j) mod SHWR_NSAMPLES))
           else tr1 ! (2 * c + 1) ! j)"
    by auto
  have step: "convert_channels db start adc tr = Inr tr'"
    using adc r1 r by (subst convert_channels.simps) simp
  show ?case
  proof (intro exI conjI allI impI)
    show "convert_channels db start adc tr = Inr tr'" by (rule step)
    show "trace_shape tr'" by (rule sh')
  next
    fix c j assume c: "c < SHWR_RAW_NCH_MAX" and j: "j < SHWR_NSAMPLES"
    have chs: "2 * c < SHWR_NCH_MAX" "2 * c + 1 < SHWR_NCH_MAX"
      using c by (simp_all add: SHWR_NCH_MAX_def)
    show "tr' ! (2 * c) ! j =
          (if adc \<le> c then lo12 (db ! (c * SHWR_NSAMPLES + (start + j) mod SHWR_NSAMPLES))
           else tr ! (2 * c) ! j)"
      using v[OF c j] v1[OF chs(1) j] by (cases "c = adc") auto
    show "tr' ! (2 * c + 1) ! j =
          (if adc \<le> c then hi12 (db ! (c * SHWR_NSAMPLES + (start + j) mod SHWR_NSAMPLES))
           else tr ! (2 * c + 1) ! j)"
      using v[OF c j] v1[OF chs(2) j] by (cases "c = adc") auto
  qed
qed

text \<open>
  Claim C1. For every staging buffer of 5 * 2048 packed words and every start offset
  below 2048, \<open>convert_databuf\<close> returns (no read leaves the buffer) and, for every raw
  channel c and sample index i, the word it unpacks is the one at index
  c * 2048 + ((start + i) mod 2048): that index lies in channel c's own range, logical
  channel 2c receives the low 12 bits of the word and logical channel 2c + 1 receives
  its bits 16..27.
\<close>

theorem convert_databuf_rotation:
  assumes "length buf = DATASIZE"
    and "unat (shwr_buf_start hdr) < SHWR_NSAMPLES"
    and "trace_shape trc"
  shows "\<exists>out. convert_databuf hdr buf trc = Inr out \<and>
     (\<forall>c i. c < SHWR_RAW_NCH_MAX \<longrightarrow> i < SHWR_NSAMPLES \<longrightarrow>
        c * SHWR_NSAMPLES \<le> c * SHWR_NSAMPLES + (unat (shwr_buf_start hdr) + i) mod SHWR_NSAMPLES \<and>
        c * SHWR_NSAMPLES + (unat (shwr_buf_start hdr) + i) mod SHWR_NSAMPLES < (c + 1) * SHWR_NSAMPLES \<and>
        unat (out ! (2 * c) ! i) =
          unat (buf ! (c * SHWR_NSAMPLES + (unat (shwr_buf_start hdr) + i) mod SHWR_NSAMPLES)) mod 4096 \<and>
        unat (out ! (2 * c + 1) ! i) =
          unat (buf ! (c * SHWR_NSAMPLES + (unat (shwr_buf_start hdr) + i) mod SHWR_NSAMPLES)) div 65536 mod 4096)"
proof -
  from convert_channels_spec[OF assms(3) assms(1) assms(2), of 0]
  obtain tr' where r: "convert_channels buf (unat (shwr_buf_start hdr)) 0 trc = Inr tr'"
    and v: "\<And>c j. c < SHWR_RAW_NCH_MAX \<Longrightarrow> j < SHWR_NSAMPLES \<Longrightarrow>
        tr' ! (2 * c) ! j =
          lo12 (buf ! (c * SHWR_NSAMPLES + (unat (shwr_buf_start hdr) + j) mod SHWR_NSAMPLES)) \<and>
        tr' ! (2 * c + 1) ! j =
          hi12 (buf ! (c * SHWR_NSAMPLES + (unat (shwr_buf_start hdr) + j) mod SHWR_NSAMPLES))"
    by auto
  have pos: "0 < SHWR_NSAMPLES" by (simp add: SHWR_NSAMPLES_def)
  show ?thesis
  proof (intro exI conjI allI impI)
    show "convert_databuf hdr buf trc = Inr tr'"
      using r by (simp add: convert_databuf_def)
  next
    fix c i assume c: "c < SHWR_RAW_NCH_MAX" and i: "i < SHWR_NSAMPLES"
    show "c * SHWR_NSAMPLES \<le> c * SHWR_NSAMPLES + (unat (shwr_buf_start hdr) + i) mod SHWR_NSAMPLES"
      by simp
    show "c * SHWR_NSAMPLES + (unat (shwr_buf_start hdr) + i) mod SHWR_NSAMPLES < (c + 1) * SHWR_NSAMPLES"
      using mod_less_divisor[OF pos, of "unat (shwr_buf_start hdr) + i"] by simp
    show "unat (tr' ! (2 * c) ! i) =
          unat (buf ! (c * SHWR_NSAMPLES + (unat (shwr_buf_start hdr) + i) mod SHWR_NSAMPLES)) mod 4096"
      using v[OF c i] by (simp add: unat_lo12)
    show "unat (tr' ! (2 * c + 1) ! i) =
          unat (buf ! (c * SHWR_NSAMPLES + (unat (shwr_buf_start hdr) + i) mod SHWR_NSAMPLES)) div 65536 mod 4096"
      using v[OF c i] by (simp add: unat_hi12)
  qed
qed

lemma trace_shape_zero: "trace_shape (replicate 10 (replicate 2048 0))"
  by (simp add: trace_shape_def SHWR_NCH_MAX_def SHWR_RAW_NCH_MAX_def SHWR_NSAMPLES_def
      list_all_iff)

theorem convert_databuf_rotation_witness:
  "\<exists>out.
     convert_databuf
       \<lparr>sh_id = 0, shwr_buf_status = 0, shwr_buf_start = 2047, shwr_buf_trig_id = 0,
        ttag_shwr_seconds = 0, ttag_shwr_nanosec = 0, rd = 0\<rparr>
       (map (\<lambda>n. word_of_nat (n * 65537)) [0..<10240])
       (replicate 10 (replicate 2048 0)) = Inr out \<and>
     unat (out ! 8 ! 2) = 1 \<and> unat (out ! 9 ! 2) = 1 \<and>
     unat (out ! 8 ! 0) = 2047 \<and> unat (out ! 9 ! 0) = 2047"
proof -
  define hdr :: shwr_header where
    "hdr = \<lparr>sh_id = 0, shwr_buf_status = 0, shwr_buf_start = 2047, shwr_buf_trig_id = 0,
        ttag_shwr_seconds = 0, ttag_shwr_nanosec = 0, rd = 0\<rparr>"
  define db :: "u32 list" where "db = map (\<lambda>n. word_of_nat (n * 65537)) [0..<10240]"
  have len: "length db = DATASIZE"
    by (simp add: db_def DATASIZE_def SHWR_NSAMPLES_def SHWR_RAW_NCH_MAX_def)
  have st: "unat (shwr_buf_start hdr) < SHWR_NSAMPLES"
    by (simp add: hdr_def SHWR_NSAMPLES_def)
  from convert_databuf_rotation[OF len st trace_shape_zero]
  obtain tr' where r: "convert_databuf hdr db (replicate 10 (replicate 2048 0)) = Inr tr'"
    and v: "\<And>c i. c < SHWR_RAW_NCH_MAX \<Longrightarrow> i < SHWR_NSAMPLES \<Longrightarrow>
        unat (tr' ! (2 * c) ! i) =
          unat (db ! (c * SHWR_NSAMPLES + (unat (shwr_buf_start hdr) + i) mod SHWR_NSAMPLES)) mod 4096 \<and>
        unat (tr' ! (2 * c + 1) ! i) =
          unat (db ! (c * SHWR_NSAMPLES + (unat (shwr_buf_start hdr) + i) mod SHWR_NSAMPLES)) div 65536 mod 4096"
    by blast
  have a: "unat (tr' ! 8 ! 2) = 1 \<and> unat (tr' ! 9 ! 2) = 1"
    using v[of 4 2] by (simp add: SHWR_RAW_NCH_MAX_def SHWR_NSAMPLES_def hdr_def db_def)
  have b: "unat (tr' ! 8 ! 0) = 2047 \<and> unat (tr' ! 9 ! 0) = 2047"
    using v[of 4 0] by (simp add: SHWR_RAW_NCH_MAX_def SHWR_NSAMPLES_def hdr_def db_def)
  show ?thesis
    using r a b unfolding hdr_def db_def by blast
qed

subsection \<open>Self-test evaluator\<close>

lemma ramp_samples_eq:
  "ramp_samples trace ch sum0 i result =
     (if \<exists>j. i \<le> j \<and> j < SHWR_NSAMPLES \<and> ramp_mismatch trace ch sum0 j
      then result OR push_bit ch 1 else result)"
proof (induction "SHWR_NSAMPLES - i" arbitrary: i)
  case 0
  then show ?case by (subst ramp_samples.simps) auto
next
  case (Suc n)
  then have i: "i < SHWR_NSAMPLES" by simp
  show ?case
  proof (cases "ramp_mismatch trace ch sum0 i")
    case True
    then have "ramp_samples trace ch sum0 i result = result OR push_bit ch 1"
      using i by (subst ramp_samples.simps) (simp add: ramp_mismatch_def)
    moreover have "\<exists>j. i \<le> j \<and> j < SHWR_NSAMPLES \<and> ramp_mismatch trace ch sum0 j"
      using True i by blast
    ultimately show ?thesis by simp
  next
    case False
    then have "ramp_samples trace ch sum0 i result = ramp_samples trace ch sum0 (i + 1) result"
      using i by (subst ramp_samples.simps) (simp add: ramp_mismatch_def)
    moreover have "n = SHWR_NSAMPLES - (i + 1)" using Suc.hyps(2) by simp
    moreover have "(\<exists>j. i \<le> j \<and> j < SHWR_NSAMPLES \<and> ramp_mismatch trace ch sum0 j) \<longleftrightarrow>
                   (\<exists>j. i + 1 \<le> j \<and> j < SHWR_NSAMPLES \<and> ramp_mismatch trace ch sum0 j)"
    proof -
      have "i \<le> j \<and> ramp_mismatch trace ch sum0 j \<longleftrightarrow> i + 1 \<le> j \<and> ramp_mismatch trace ch sum0 j" for j
        using False by (cases "j = i") auto
      then show ?thesis by blast
    qed
    ultimately show ?thesis using Suc.hyps(1)[of "i + 1"] by simp
  qed
qed

lemma ramp_step:
  "ramp_samples trace ch (uint (trace ! (2 * ch) ! 0)) 0 result =
     (if channel_fails trace ch then result OR push_bit ch 1 else result)"
  by (simp add: ramp_samples_eq channel_fails_def)

lemma bit_one_shift: "bit ((2::int) ^ ch) c \<longleftrightarrow> c = ch"
  by (auto simp: bit_exp_iff)

lemma ramp_channels_bits:
  "bit (ramp_channels trace ch result) c \<longleftrightarrow>
     bit result c \<or> (ch \<le> c \<and> c < SHWR_RAW_NCH_MAX \<and> channel_fails trace c)"
proof (induction "SHWR_RAW_NCH_MAX - ch" arbitrary: ch result)
  case 0
  then show ?case by (subst ramp_channels.simps) auto
next
  case (Suc n)
  then have ch: "ch < SHWR_RAW_NCH_MAX" by simp
  have n: "n = SHWR_RAW_NCH_MAX - (ch + 1)" using Suc.hyps(2) by simp
  have "ramp_channels trace ch result =
        ramp_channels trace (ch + 1) (if channel_fails trace ch then result OR push_bit ch 1 else result)"
    using ch by (subst ramp_channels.simps) (simp add: ramp_step)
  then have "bit (ramp_channels trace ch result) c \<longleftrightarrow>
      bit (if channel_fails trace ch then result OR push_bit ch 1 else result) c \<or>
      (ch + 1 \<le> c \<and> c < SHWR_RAW_NCH_MAX \<and> channel_fails trace c)"
    using Suc.hyps(1)[OF n] by simp
  moreover have "ch \<le> c \<longleftrightarrow> c = ch \<or> ch + 1 \<le> c" by auto
  ultimately show ?case
    using ch by (cases "channel_fails trace ch") (auto simp: bit_or_iff bit_one_shift)
qed

lemma ramp_channels_range:
  assumes "0 \<le> result" "result < 32"
  shows "0 \<le> ramp_channels trace ch result \<and> ramp_channels trace ch result < 32"
  using assms
proof (induction "SHWR_RAW_NCH_MAX - ch" arbitrary: ch result)
  case 0
  then have "ramp_channels trace ch result = result"
    by (subst ramp_channels.simps) simp
  then show ?case using 0 by simp
next
  case (Suc n)
  then have ch: "ch < SHWR_RAW_NCH_MAX" by simp
  have n: "n = SHWR_RAW_NCH_MAX - (ch + 1)" using Suc.hyps(2) by simp
  define r where "r = (if channel_fails trace ch then result OR push_bit ch 1 else result)"
  have step: "ramp_channels trace ch result = ramp_channels trace (ch + 1) r"
    using ch by (subst ramp_channels.simps) (simp add: ramp_step r_def)
  have "(2::int) ^ ch < 2 ^ 5"
    using ch by (intro power_strict_increasing) (simp_all add: SHWR_RAW_NCH_MAX_def)
  then have "result OR push_bit ch 1 < 2 ^ 5"
    using Suc.prems by (intro OR_upper) (simp_all add: push_bit_eq_mult)
  moreover have "0 \<le> result OR push_bit ch 1"
    using Suc.prems by (simp add: push_bit_eq_mult)
  ultimately have "0 \<le> r" "r < 32"
    using Suc.prems by (simp_all add: r_def)
  then show ?case using Suc.hyps(1)[OF n, of r] step by simp
qed

subsection \<open>ADC control: the skip of a failed device\<close>

lemma seq_Inr [simp]: "seq (Inr v, s) f = f v s"
  by (simp add: seq_def)

lemma seq_Inl [simp]: "seq (Inl e, s) f = (Inl e, s)"
  by (simp add: seq_def)

lemma for_loop_end: "n \<le> i \<Longrightarrow> for_loop i n body st = (Inr (), st)"
  by (subst for_loop.simps) simp

lemma for_loop_step:
  "i < n \<Longrightarrow> for_loop i n body st = seq (body i st) (\<lambda>_. for_loop (i + 1) n body)"
  by (subst for_loop.simps) (simp add: seq_def split: prod.splits sum.splits)

lemma for_loop_rule:
  assumes "I i st" and "i \<le> n"
    and step: "\<And>j s. i \<le> j \<Longrightarrow> j < n \<Longrightarrow> I j s \<Longrightarrow>
             (case body j s of (Inr u, s') \<Rightarrow> I (j + 1) s' | (Inl e, s') \<Rightarrow> Q e s')"
  shows "case for_loop i n body st of (Inr u, s') \<Rightarrow> I n s' | (Inl e, s') \<Rightarrow> Q e s'"
  using assms(1,2) step
proof (induction "n - i" arbitrary: i st)
  case 0
  then show ?case by (simp add: for_loop_end)
next
  case (Suc m)
  then have i: "i < n" by simp
  obtain r s1 where b: "body i st = (r, s1)" by (cases "body i st")
  show ?case
  proof (cases r)
    case (Inl e)
    then show ?thesis
      using Suc.prems(3)[of i st] Suc.prems(1) i b by (simp add: for_loop_step)
  next
    case (Inr u)
    then have I1: "I (i + 1) s1"
      using Suc.prems(3)[of i st] Suc.prems(1) i b by simp
    have m: "m = n - (i + 1)" using Suc.hyps(2) by simp
    have "case for_loop (i + 1) n body s1 of (Inr u, s') \<Rightarrow> I n s' | (Inl e, s') \<Rightarrow> Q e s'"
      using i by (intro Suc.hyps(1)[OF m I1] Suc.prems(3)) simp_all
    then show ?thesis using i b Inr by (simp add: for_loop_step)
  qed
qed

lemma emit_events [simp]: "events (emit e st) = events st @ [e]"
  by (simp add: emit_def)

lemma emit_acr_fields [simp]:
  "adcfd (emit e st) = adcfd st" "failedadcfd (emit e st) = failedadcfd st"
  "exit_funcs (emit e st) = exit_funcs st" "gl (emit e st) = gl st"
  "databuf (emit e st) = databuf st" "traces (emit e st) = traces st"
  by (simp_all add: emit_def)

lemma adc_write_cases:
  obtains (ok) st' where "adc_write env fd a c st = (Inr 1, st')"
      "events st' = events st @ [Call (SysWrite fd (cmdstr a c)) 3]"
      "sys_ret env (now st) (SysWrite fd (cmdstr a c)) = 3"
      "adcfd st' = adcfd st" "failedadcfd st' = failedadcfd st"
    | (fail) st' n where "adc_write env fd a c st = (Inl (Exit EXIT_SPIWRITE), st')"
      "events st' = events st @ [Call (SysWrite fd (cmdstr a c)) n]" "n \<noteq> 3"
      "sys_ret env (now st) (SysWrite fd (cmdstr a c)) = n"
      "adcfd st' = adcfd st" "failedadcfd st' = fd"
  by (cases "sys_ret env (now st) (SysWrite fd (cmdstr a c)) = 3")
     (auto simp: adc_write_def syscall_def Let_def)

lemma adc_settestmode_body_cases:
  obtains (ok) st' where "adc_settestmode_body env tm i st = (Inr (), st')"
      "events st' = events st @ dev_events (failedadcfd st) tm i (adcfd st ! i)"
      "adcfd st' = adcfd st" "failedadcfd st' = failedadcfd st"
    | (fail) st' pre bytes n where "adc_settestmode_body env tm i st = (Inl (Exit EXIT_SPIWRITE), st')"
      "events st' = events st @ pre @ [Call (SysWrite (adcfd st ! i) bytes) n]"
      "n \<noteq> 3" "sys_ret env (length (events st @ pre)) (SysWrite (adcfd st ! i) bytes) = n"
      "pre = [] \<or> pre = [Call (SysWrite (adcfd st ! i) (cmdstr ADDR_CHS MASK_CHS)) 3]"
      "adcfd st ! i \<ge> 0" "adcfd st ! i \<noteq> failedadcfd st"
      "adcfd st' = adcfd st" "failedadcfd st' = adcfd st ! i"
proof -
  define fd where "fd = adcfd st ! i"
  consider "fd < 0" | "fd \<ge> 0" "fd = failedadcfd st" | "fd \<ge> 0" "fd \<noteq> failedadcfd st"
    by linarith
  then show ?thesis
  proof cases
    case 1
    then show ?thesis
      by (intro ok[of "emit (Stderr (SpiNotOpen i)) st"])
         (auto simp: adc_settestmode_body_def dev_events_def fd_def)
  next
    case 2
    then show ?thesis
      by (intro ok[of "emit (Stderr (IgnoredFailingADC i)) st"])
         (auto simp: adc_settestmode_body_def dev_events_def fd_def)
  next
    case 3
    show ?thesis
    proof (cases rule: adc_write_cases[of env fd ADDR_CHS MASK_CHS st])
      case (fail st1 n)
      show ?thesis
        using 3 fail
        by (intro that(2)[of st1 "[]" "cmdstr ADDR_CHS MASK_CHS" n])
           (auto simp: adc_settestmode_body_def fd_def now_def)
    next
      case ok1: (ok st1)
      show ?thesis
      proof (cases rule: adc_write_cases[of env fd ADDR_TEST tm st1])
        case (fail st2 n)
        show ?thesis
          using 3 ok1 fail
          by (intro that(2)[of st2 "[Call (SysWrite fd (cmdstr ADDR_CHS MASK_CHS)) 3]" "cmdstr ADDR_TEST tm" n])
             (auto simp: adc_settestmode_body_def fd_def now_def)
      next
        case (ok st2)
        show ?thesis
          using 3 ok1 ok
          by (intro that(1)[of st2])
             (auto simp: adc_settestmode_body_def dev_events_def fd_def)
      qed
    qed
  qed
qed

lemma round_events_Suc:
  "round_events f tm fds (Suc k) = round_events f tm fds k @ dev_events f tm k (fds ! k)"
  by (simp add: round_events_def)

lemma adc_settestmode_runs:
  "case adc_settestmode env tm st of
     (Inr u, st') \<Rightarrow>
        events st' = events st @ round_events (failedadcfd st) tm (adcfd st) SHWR_RAW_NCH_MAX \<and>
        adcfd st' = adcfd st \<and> failedadcfd st' = failedadcfd st
   | (Inl e, st') \<Rightarrow> e = Exit EXIT_SPIWRITE \<and> (\<exists>k. write_failed_at env tm st st' k)"
  unfolding adc_settestmode_def
proof (rule for_loop_rule[where
      I = "\<lambda>j s. events s = events st @ round_events (failedadcfd st) tm (adcfd st) j \<and>
                 adcfd s = adcfd st \<and> failedadcfd s = failedadcfd st"
      and Q = "\<lambda>e s. e = Exit EXIT_SPIWRITE \<and> (\<exists>k. write_failed_at env tm st s k)"])
  show "events st = events st @ round_events (failedadcfd st) tm (adcfd st) 0 \<and>
        adcfd st = adcfd st \<and> failedadcfd st = failedadcfd st"
    by (simp add: round_events_def)
  show "0 \<le> SHWR_RAW_NCH_MAX" by simp
next
  fix j and s :: acr_proc
  assume j: "j < SHWR_RAW_NCH_MAX"
    and I: "events s = events st @ round_events (failedadcfd st) tm (adcfd st) j \<and>
            adcfd s = adcfd st \<and> failedadcfd s = failedadcfd st"
  show "case adc_settestmode_body env tm j s of
          (Inr u, s') \<Rightarrow>
            events s' = events st @ round_events (failedadcfd st) tm (adcfd st) (j + 1) \<and>
            adcfd s' = adcfd st \<and> failedadcfd s' = failedadcfd st
        | (Inl e, s') \<Rightarrow> e = Exit EXIT_SPIWRITE \<and> (\<exists>k. write_failed_at env tm st s' k)"
  proof (cases rule: adc_settestmode_body_cases[of env tm j s])
    case (ok s')
    then show ?thesis using I by (simp add: round_events_Suc)
  next
    case (fail s' pre bytes n)
    have "write_failed_at env tm st s' j"
      unfolding write_failed_at_def
      using fail I j by (intro conjI exI[of _ pre] exI[of _ bytes] exI[of _ n]) simp_all
    then show ?thesis using fail(1) by auto
  qed
qed

lemma dev_events_no_write: "e \<in> set (dev_events f tm j fd) \<Longrightarrow> \<not> is_write_on f e"
  by (auto simp: dev_events_def split: if_splits)

lemma round_events_no_write: "e \<in> set (round_events f tm fds k) \<Longrightarrow> \<not> is_write_on f e"
  by (auto simp: round_events_def dest: dev_events_no_write)


lemma close_loop_runs:
  "case for_loop i SHWR_RAW_NCH_MAX (close_adc env) st of
     (Inr u, st') \<Rightarrow> failedadcfd st' = failedadcfd st \<and>
        (\<exists>new. events st' = events st @ new \<and> (\<forall>e\<in>set new. \<forall>fd. \<not> is_write_on fd e))
   | (Inl e, st') \<Rightarrow> False"
proof (cases "i \<le> SHWR_RAW_NCH_MAX")
  case True
  show ?thesis
  proof (rule for_loop_rule[where
        I = "\<lambda>j s. failedadcfd s = failedadcfd st \<and>
               (\<exists>new. events s = events st @ new \<and> (\<forall>e\<in>set new. \<forall>fd. \<not> is_write_on fd e))"
        and Q = "\<lambda>e s. False"])
    show "failedadcfd st = failedadcfd st \<and>
          (\<exists>new. events st = events st @ new \<and> (\<forall>e\<in>set new. \<forall>fd. \<not> is_write_on fd e))"
      by simp
    show "i \<le> SHWR_RAW_NCH_MAX" by (rule True)
  next
    fix j and s :: acr_proc
    assume "failedadcfd s = failedadcfd st \<and>
            (\<exists>new. events s = events st @ new \<and> (\<forall>e\<in>set new. \<forall>fd. \<not> is_write_on fd e))"
    then show "case close_adc env j s of
          (Inr u, s') \<Rightarrow> failedadcfd s' = failedadcfd st \<and>
            (\<exists>new. events s' = events st @ new \<and> (\<forall>e\<in>set new. \<forall>fd. \<not> is_write_on fd e))
        | (Inl e, s') \<Rightarrow> False"
      by (auto simp: close_adc_def syscall_def Let_def emit_def)
  qed
next
  case False
  then show ?thesis by (simp add: for_loop_end)
qed

lemma write_failed_at_last:
  assumes "write_failed_at env tm st st' k"
  shows "\<exists>new. events st' = events st @ new \<and> (\<forall>e\<in>set new. \<not> is_write_on (failedadcfd st) e) \<and>
     (\<exists>fd bytes n t. last (events st') = Call (SysWrite fd bytes) n \<and> fd \<noteq> failedadcfd st \<and>
        n \<noteq> 3 \<and> sys_ret env t (SysWrite fd bytes) = n)"
proof -
  from assms obtain pre bytes n where
    ev: "events st' = events st @ round_events (failedadcfd st) tm (adcfd st) k @ pre @
                     [Call (SysWrite (adcfd st ! k) bytes) n]"
    and n: "n \<noteq> 3"
    and ret: "sys_ret env (length (events st @ round_events (failedadcfd st) tm (adcfd st) k @ pre))
          (SysWrite (adcfd st ! k) bytes) = n"
    and pre: "pre = [] \<or> pre = [Call (SysWrite (adcfd st ! k) (cmdstr ADDR_CHS MASK_CHS)) 3]"
    and ne: "adcfd st ! k \<noteq> failedadcfd st"
    unfolding write_failed_at_def by blast
  have "\<forall>e\<in>set (round_events (failedadcfd st) tm (adcfd st) k @ pre @
                     [Call (SysWrite (adcfd st ! k) bytes) n]). \<not> is_write_on (failedadcfd st) e"
    using pre ne by (auto dest: round_events_no_write)
  moreover have "last (events st') = Call (SysWrite (adcfd st ! k) bytes) n"
    using ev by simp
  ultimately show ?thesis using ev n ret ne by blast
qed

lemma adc_settestmode_effect: "call_effect env st (adc_settestmode env tm st)"
proof -
  obtain r st' where res: "adc_settestmode env tm st = (r, st')"
    by (cases "adc_settestmode env tm st")
  show ?thesis
  proof (cases r)
    case (Inr u)
    then show ?thesis
      using adc_settestmode_runs[of env tm st] res
      by (auto simp: call_effect_def dest: round_events_no_write)
  next
    case (Inl e)
    then obtain k where "e = Exit EXIT_SPIWRITE" "write_failed_at env tm st st' k"
      using adc_settestmode_runs[of env tm st] res by auto
    then show ?thesis
      using write_failed_at_last[of env tm st st' k] res Inl
      by (auto simp: call_effect_def)
  qed
qed

lemma adc_normal_effect: "call_effect env st (adc_normal env st)"
proof -
  obtain r st1 where res: "adc_settestmode env RAMPOFF st = (r, st1)"
    by (cases "adc_settestmode env RAMPOFF st")
  have eff: "call_effect env st (r, st1)"
    using adc_settestmode_effect[of env st RAMPOFF] res by simp
  show ?thesis
  proof (cases r)
    case (Inl e)
    then show ?thesis using eff res by (simp add: adc_normal_def)
  next
    case (Inr u)
    obtain r2 st2 where c: "for_loop 0 SHWR_RAW_NCH_MAX (close_adc env) st1 = (r2, st2)"
      by (cases "for_loop 0 SHWR_RAW_NCH_MAX (close_adc env) st1")
    from close_loop_runs[where i=0 and env=env and st=st1] c
    obtain new2 where r2: "r2 = Inr ()" and f2: "failedadcfd st2 = failedadcfd st1"
      and e2: "events st2 = events st1 @ new2" "\<forall>e\<in>set new2. \<forall>fd. \<not> is_write_on fd e"
      by (cases r2) auto
    from eff Inr obtain new1 where e1: "events st1 = events st @ new1"
      "\<forall>e\<in>set new1. \<not> is_write_on (failedadcfd st) e" and f1: "failedadcfd st1 = failedadcfd st"
      by (auto simp: call_effect_def)
    have "adc_normal env st = (Inr (), st2)"
      using res Inr c r2 by (simp add: adc_normal_def)
    moreover have "events st2 = events st @ (new1 @ new2)" using e1 e2 by simp
    moreover have "\<forall>e\<in>set (new1 @ new2). \<not> is_write_on (failedadcfd st) e"
      using e1 e2 by auto
    ultimately show ?thesis
      using f1 f2 unfolding call_effect_def by (metis fst_conv snd_conv)
  qed
qed



lemma ok_env_returns:
  assumes eff: "call_effect env st (r, st')"
    and ok: "\<forall>t fd bytes. fd \<noteq> failedadcfd st \<longrightarrow> sys_ret env t (SysWrite fd bytes) = 3"
  shows "r = Inr ()"
  using eff ok unfolding call_effect_def by (metis fst_conv)

lemma acr_with_fields [simp]:
  "adcfd (acr_with fds failed) = fds" "failedadcfd (acr_with fds failed) = failed"
  "events (acr_with fds failed) = []"
  by (simp_all add: acr_with_def acr_init_def)

subsection \<open>ADC control: a failing register write\<close>

lemma for_loop_unroll:
  "for_loop i n body st =
     (if i < n then seq (body i st) (\<lambda>_. for_loop (Suc i) n body) else (Inr (), st))"
  by (simp add: for_loop_step for_loop_end)



subsection \<open>Trigger wait and event reader\<close>

lemma store_frame_acr: "store_frame acr_store"
  by (simp add: store_frame_def acr_store_def)

lemma store_frame_ns: "store_frame ns_store"
  by (simp add: store_frame_def ns_store_def)

lemma emit_proc_fields [simp]: "gl (emit e st) = gl st" "sh (emit e st) = sh st"
  by (simp_all add: emit_def)

lemma wait_trigger_frame:
  "wait_trigger d env fuel sig st = Some (sig', st1) \<Longrightarrow>
   \<exists>new. st1 = st\<lparr>events := events st @ new\<rparr> \<and> (\<forall>e\<in>set new. \<not> is_reg_write e)"
proof (induction fuel arbitrary: sig st)
  case 0
  then show ?case by simp
next
  case (Suc fuel)
  define v where "v = hw_reg env (now st) Regs (SHWR_BUF_STATUS_ADDR d)"
  define sa where "sa = emit (RegRead Regs (SHWR_BUF_STATUS_ADDR d) v) st"
  show ?case
  proof (cases "v AND push_bit (SHWR_BUF_NFULL_SHIFT d) (SHWR_BUF_NFULL_MASK d) = 0 \<and> sig = SIG_WAKEUP d")
    case False
    then have "st1 = sa"
      using Suc.prems by (auto simp: reg_read_def Let_def v_def sa_def)
    then show ?thesis
      by (intro exI[of _ "[RegRead Regs (SHWR_BUF_STATUS_ADDR d) v]"]) (simp add: sa_def emit_def)
  next
    case True
    define s1 where "s1 = sys_ret env (now sa) SysSigwaitinfo"
    define sb where "sb = emit (Call SysSigwaitinfo s1) sa"
    have "wait_trigger d env fuel s1 sb = Some (sig', st1)"
      using Suc.prems True by (simp add: reg_read_def syscall_def Let_def v_def sa_def s1_def sb_def)
    from Suc.IH[OF this] obtain new where
      "st1 = sb\<lparr>events := events sb @ new\<rparr>" "\<forall>e\<in>set new. \<not> is_reg_write e" by blast
    then show ?thesis
      by (intro exI[of _ "[RegRead Regs (SHWR_BUF_STATUS_ADDR d) v, Call SysSigwaitinfo s1] @ new"])
         (simp add: sb_def sa_def emit_def)
  qed
qed

lemma copy_loop_runs:
  assumes "store_frame store"
  shows "case for_loop 0 SHWR_RAW_NCH_MAX (copy_channel env store offset) st of
     (Inr u, st') \<Rightarrow> window_fits st offset \<and>
        events st' = events st @ map (\<lambda>i. Memcpy i offset) [0..<SHWR_RAW_NCH_MAX] \<and>
        gl st' = gl st \<and> sh st' = sh st
   | (Inl e, st') \<Rightarrow> e = Fault OutOfBounds \<and> \<not> window_fits st offset"
proof -
  define I where "I = (\<lambda>j (s :: 'a proc_scheme).
      events s = events st @ map (\<lambda>i. Memcpy i offset) [0..<j] \<and>
      gl s = gl st \<and> sh s = sh st \<and>
      (0 < j \<longrightarrow> 4 * int (offset + SHWR_NSAMPLES) \<le> shwr_mem_size (gl st)) \<and>
      (\<forall>i<j. shwr_pt (gl st) ! i \<noteq> None))"
  define Q where "Q = (\<lambda>e (s :: 'a proc_scheme). e = Fault OutOfBounds \<and> \<not> window_fits st offset)"
  have fr: "events (store i ws s) = events s" "gl (store i ws s) = gl s" "sh (store i ws s) = sh s"
    for i ws s
    using assms by (simp_all add: store_frame_def)
  have "case for_loop 0 SHWR_RAW_NCH_MAX (copy_channel env store offset) st of
          (Inr u, s') \<Rightarrow> I SHWR_RAW_NCH_MAX s' | (Inl e, s') \<Rightarrow> Q e s'"
  proof (rule for_loop_rule)
    show "I 0 st" by (simp add: I_def)
    show "0 \<le> SHWR_RAW_NCH_MAX" by simp
  next
    fix j and s :: "'a proc_scheme"
    assume j: "j < SHWR_RAW_NCH_MAX" and I: "I j s"
    show "case copy_channel env store offset j s of
            (Inr u, s') \<Rightarrow> I (j + 1) s' | (Inl e, s') \<Rightarrow> Q e s'"
    proof (cases "shwr_pt (gl s) ! j \<noteq> None \<and> 4 * int (offset + SHWR_NSAMPLES) \<le> shwr_mem_size (gl s)")
      case True
      then show ?thesis
        using I by (auto simp: copy_channel_def I_def fr less_Suc_eq)
    next
      case False
      then have "\<not> window_fits st offset"
        using I j by (auto simp: window_fits_def I_def)
      then show ?thesis
        using False by (auto simp: copy_channel_def Q_def)
    qed
  qed
  then show ?thesis
    by (auto simp: I_def Q_def window_fits_def SHWR_RAW_NCH_MAX_def split: prod.splits sum.splits)
qed

lemma drain_runs:
  fixes st :: "'a proc_scheme" and d :: hwdefs and env :: env
  assumes "store_frame store"
  defines "t \<equiv> now st"
  defines "rnum \<equiv> slot_of d (hw_reg env (now st) Regs (SHWR_BUF_STATUS_ADDR d))"
  shows "case drain d env store st of
     (Inr u, st') \<Rightarrow> window_fits st (unat rnum * SHWR_NSAMPLES) \<and>
        events st' = events st @
          [RegRead Regs (SHWR_BUF_STATUS_ADDR d) (hw_reg env t Regs (SHWR_BUF_STATUS_ADDR d))] @
          map (\<lambda>i. Memcpy i (unat rnum * SHWR_NSAMPLES)) [0..<SHWR_RAW_NCH_MAX] @
          [RegRead Regs (SHWR_BUF_STATUS_ADDR d) (hw_reg env (t + 6) Regs (SHWR_BUF_STATUS_ADDR d)),
           RegRead Regs (SHWR_BUF_START_ADDR d) (hw_reg env (t + 7) Regs (SHWR_BUF_START_ADDR d)),
           RegRead Regs (SHWR_BUF_TRIG_ID_ADDR d) (hw_reg env (t + 8) Regs (SHWR_BUF_TRIG_ID_ADDR d)),
           RegRead TtRegs (TTAG_SHWR_SECONDS_ADDR d) (hw_reg env (t + 9) TtRegs (TTAG_SHWR_SECONDS_ADDR d)),
           RegRead TtRegs (TTAG_SHWR_NANOSEC_ADDR d) (hw_reg env (t + 10) TtRegs (TTAG_SHWR_NANOSEC_ADDR d)),
           RegWrite Regs (SHWR_BUF_CONTROL_ADDR d) rnum,
           IdCounter (id_counter (gl st) + 1)] \<and>
        sh st' =
          \<lparr>sh_id = id_counter (gl st),
           shwr_buf_status = hw_reg env (t + 6) Regs (SHWR_BUF_STATUS_ADDR d),
           shwr_buf_start = hw_reg env (t + 7) Regs (SHWR_BUF_START_ADDR d),
           shwr_buf_trig_id = hw_reg env (t + 8) Regs (SHWR_BUF_TRIG_ID_ADDR d),
           ttag_shwr_seconds = hw_reg env (t + 9) TtRegs (TTAG_SHWR_SECONDS_ADDR d),
           ttag_shwr_nanosec = hw_reg env (t + 10) TtRegs (TTAG_SHWR_NANOSEC_ADDR d),
           rd = rnum\<rparr> \<and>
        gl st' = (gl st)\<lparr>id_counter := id_counter (gl st) + 1\<rparr>
   | (Inl e, st') \<Rightarrow> e = Fault OutOfBounds \<and> \<not> window_fits st (unat rnum * SHWR_NSAMPLES)"
proof -
  define v0 where "v0 = hw_reg env (now st) Regs (SHWR_BUF_STATUS_ADDR d)"
  define sa where "sa = emit (RegRead Regs (SHWR_BUF_STATUS_ADDR d) v0) st"
  define off where "off = unat rnum * SHWR_NSAMPLES"
  have wf: "window_fits sa off = window_fits st off"
    by (simp add: window_fits_def sa_def)
  obtain r sc where c: "for_loop 0 SHWR_RAW_NCH_MAX (copy_channel env store off) sa = (r, sc)"
    by (cases "for_loop 0 SHWR_RAW_NCH_MAX (copy_channel env store off) sa")
  have unf: "drain d env store st =
      seq (r, sc) (\<lambda>_ st.
        let st = st\<lparr>sh := (sh st)\<lparr>sh_id := id_counter (gl st)\<rparr>\<rparr>;
            (v, st) = reg_read env Regs (SHWR_BUF_STATUS_ADDR d) st;
            st = st\<lparr>sh := (sh st)\<lparr>shwr_buf_status := v\<rparr>\<rparr>;
            (v, st) = reg_read env Regs (SHWR_BUF_START_ADDR d) st;
            st = st\<lparr>sh := (sh st)\<lparr>shwr_buf_start := v\<rparr>\<rparr>;
            (v, st) = reg_read env Regs (SHWR_BUF_TRIG_ID_ADDR d) st;
            st = st\<lparr>sh := (sh st)\<lparr>shwr_buf_trig_id := v\<rparr>\<rparr>;
            (v, st) = reg_read env TtRegs (TTAG_SHWR_SECONDS_ADDR d) st;
            st = st\<lparr>sh := (sh st)\<lparr>ttag_shwr_seconds := v\<rparr>\<rparr>;
            (v, st) = reg_read env TtRegs (TTAG_SHWR_NANOSEC_ADDR d) st;
            st = st\<lparr>sh := (sh st)\<lparr>ttag_shwr_nanosec := v\<rparr>\<rparr>;
            st = st\<lparr>sh := (sh st)\<lparr>rd := rnum\<rparr>\<rparr>;
            st = reg_write Regs (SHWR_BUF_CONTROL_ADDR d) rnum st;
            st = emit (IdCounter (id_counter (gl st) + 1))
                   (st\<lparr>gl := (gl st)\<lparr>id_counter := id_counter (gl st) + 1\<rparr>\<rparr>)
        in (Inr (), st))"
    unfolding drain_def
    by (simp add: reg_read_def Let_def c[symmetric] sa_def v0_def off_def rnum_def slot_of_def)
  note loop = copy_loop_runs[OF assms(1), where env=env and offset=off and st=sa, unfolded c]
  show ?thesis
  proof (cases r)
    case (Inl e)
    then show ?thesis
      using loop wf unf by (simp add: off_def)
  next
    case (Inr u)
    then have fits: "window_fits st off"
      and ev: "events sc = events st @ [RegRead Regs (SHWR_BUF_STATUS_ADDR d) v0] @
                 map (\<lambda>i. Memcpy i off) [0..<SHWR_RAW_NCH_MAX]"
      and g: "gl sc = gl st" and h: "sh sc = sh st"
      using loop wf by (simp_all add: sa_def)
    have len: "length (events sc) = t + 6"
      by (simp add: ev t_def now_def SHWR_RAW_NCH_MAX_def)
    show ?thesis
      using fits Inr
      by (cases "sh st")
         (simp add: unf reg_read_def reg_write_def emit_def now_def Let_def ev g h
          off_def[symmetric] v0_def t_def SHWR_RAW_NCH_MAX_def eval_nat_numeral)
  qed
qed

lemma drain_result:
  fixes st :: "'a proc_scheme"
  assumes "store_frame store"
  shows "case drain d env store st of
     (Inr u, st') \<Rightarrow>
        window_fits st (unat (slot_of d (hw_reg env (now st) Regs (SHWR_BUF_STATUS_ADDR d))) * SHWR_NSAMPLES) \<and>
        events st' = events st @ drain_events d env (now st) (id_counter (gl st)) \<and>
        sh st' = drained_header d env (now st) (id_counter (gl st)) \<and>
        gl st' = (gl st)\<lparr>id_counter := id_counter (gl st) + 1\<rparr>
   | (Inl e, st') \<Rightarrow> e = Fault OutOfBounds \<and>
        \<not> window_fits st (unat (slot_of d (hw_reg env (now st) Regs (SHWR_BUF_STATUS_ADDR d))) * SHWR_NSAMPLES)"
  using drain_runs[OF assms, where d=d and env=env and st=st]
  by (simp add: drain_events_def drained_header_def split: prod.splits sum.splits)

lemma drain_events_writes:
  "filter is_reg_write (drain_events d env t idc) =
     [RegWrite Regs (SHWR_BUF_CONTROL_ADDR d) (slot_of d (hw_reg env t Regs (SHWR_BUF_STATUS_ADDR d)))]"
  by (simp add: drain_events_def filter_map comp_def)

lemma filter_no_writes: "\<forall>e\<in>set es. \<not> is_reg_write e \<Longrightarrow> filter is_reg_write es = []"
  by (induction es) auto

lemma wait_frame:
  fixes st :: "'a proc_scheme"
  assumes "wait_trigger d env fuel sig st = Some (sig', st1)"
  shows "st1 = st\<lparr>events := events st1\<rparr>"
    and "filter is_reg_write (new_events st st1) = []"
    and "\<exists>new. events st1 = events st @ new"
proof -
  from wait_trigger_frame[OF assms] obtain new where
    n: "st1 = st\<lparr>events := events st @ new\<rparr>" "\<forall>e\<in>set new. \<not> is_reg_write e" by blast
  have ev: "events st1 = events st @ new" by (subst n(1)) simp
  show "st1 = st\<lparr>events := events st1\<rparr>" using n(1) ev by simp
  show "filter is_reg_write (new_events st st1) = []"
    using n(2) ev by (simp add: new_events_def filter_no_writes)
  show "\<exists>new. events st1 = events st @ new" using ev by blast
qed

lemma drain_after_wait:
  fixes st :: "'a proc_scheme"
  assumes w: "wait_trigger d env fuel sig st = Some (sig', st1)"
    and fr: "store_frame store"
    and dr: "drain d env store st1 = (Inr u, st')"
  shows "new_events st1 st' = drain_events d env (now st1) (id_counter (gl st))"
    and "sh st' = drained_header d env (now st1) (id_counter (gl st))"
    and "id_counter (gl st') = id_counter (gl st) + 1"
    and "filter is_reg_write (new_events st st') =
           [RegWrite Regs (SHWR_BUF_CONTROL_ADDR d)
              (slot_of d (hw_reg env (now st1) Regs (SHWR_BUF_STATUS_ADDR d)))]"
proof -
  from wait_frame[OF w] obtain new where
    st1: "st1 = st\<lparr>events := events st1\<rparr>" and nw: "filter is_reg_write (new_events st st1) = []"
    and ev1: "events st1 = events st @ new" by blast
  have g: "gl st1 = gl st" by (subst st1) simp
  from drain_result[OF fr, where d=d and env=env and st=st1] dr
  have ev: "events st' = events st1 @ drain_events d env (now st1) (id_counter (gl st))"
    and h: "sh st' = drained_header d env (now st1) (id_counter (gl st))"
    and g': "gl st' = (gl st1)\<lparr>id_counter := id_counter (gl st1) + 1\<rparr>"
    by (simp_all add: g)
  show "new_events st1 st' = drain_events d env (now st1) (id_counter (gl st))"
    using ev by (simp add: new_events_def)
  show "sh st' = drained_header d env (now st1) (id_counter (gl st))" by (rule h)
  show "id_counter (gl st') = id_counter (gl st) + 1" using g' g by simp
  have "new_events st st' = new @ drain_events d env (now st1) (id_counter (gl st))"
    using ev ev1 by (simp add: new_events_def)
  moreover have "filter is_reg_write new = []"
    using nw ev1 by (simp add: new_events_def)
  ultimately show "filter is_reg_write (new_events st st') =
           [RegWrite Regs (SHWR_BUF_CONTROL_ADDR d)
              (slot_of d (hw_reg env (now st1) Regs (SHWR_BUF_STATUS_ADDR d)))]"
    by (simp add: drain_events_writes)
qed

lemma drain_succeeds:
  fixes st :: "'a proc_scheme"
  assumes "store_frame store"
    and "window_fits st (unat (slot_of d (hw_reg env (now st) Regs (SHWR_BUF_STATUS_ADDR d))) * SHWR_NSAMPLES)"
  shows "\<exists>st'. drain d env store st = (Inr (), st')"
  using drain_result[OF assms(1), where d=d and env=env and st=st] assms(2)
  by (cases "drain d env store st") (auto split: sum.splits)

subsection \<open>Device register map and bounds of the reads\<close>

lemma mapped_simps [simp]:
  "mapped [] = []" "mapped (es @ es') = mapped es @ mapped es'" "mapped (e # es) = mapped_of e @ mapped es"
  by (simp_all add: mapped_def)

lemma unmapped_simps [simp]:
  "unmapped [] = []" "unmapped (es @ es') = unmapped es @ unmapped es'"
  "unmapped (e # es) = unmapped_of e @ unmapped es"
  by (simp_all add: unmapped_def)

lemma registered_simps [simp]:
  "registered [] = []" "registered (es @ es') = registered es @ registered es'"
  "registered (e # es) = registered_of e @ registered es"
  by (simp_all add: registered_def)

lemma init_result:
  fixes st :: "'a proc_scheme"
  assumes len: "length (shwr_pt (gl st)) = SHWR_RAW_NCH_MAX"
  shows "case read_evt_init_with ec d env st of
     (Inr u, st') \<Rightarrow>
        st' = st\<lparr>events := events st', gl := gl st'\<rparr> \<and> all_mapped (gl st') \<and>
        shwr_mem_size (gl st') =
          sint (roundup (word_of_nat (SHWR_MEM_DEPTH d * SHWR_MEM_NBUF d)) (word_of_nat (PAGESIZE d))) \<and>
        (\<exists>new. events st' = events st @ new \<and> mapped new = all_regions \<and>
           unmapped new = [] \<and> registered new = [])
   | (Inl e, st') \<Rightarrow>
        st' = st\<lparr>events := events st', gl := gl st'\<rparr> \<and> (\<exists>c. e = Exit c) \<and>
        (\<exists>new. events st' = events st @ new \<and> unmapped new = [] \<and> registered new = [])"
  using len
  apply (simp add: read_evt_init_with_def for_loop_unroll SHWR_RAW_NCH_MAX_def map_shwr_def
      mmap_or_exit_def call_or_exit_def syscall_def emit_def now_def Let_def all_mapped_def
      all_regions_def upt_rec split: prod.splits sum.splits)
  apply (auto simp: nth_list_update eval_nat_numeral less_Suc_eq)
  done

lemma sint_small:
  assumes "unat (w :: u32) < 2 ^ 31"
  shows "sint w = int (unat w)"
proof -
  have "int (unat w) < int (2 ^ 31)" using assms by (rule iffD2[OF of_nat_less_iff])
  then have "int (unat w) < 2 ^ 31" by simp
  then have lt: "uint w < 2 ^ 31" by (simp only: uint_nat)
  have ge: "- (2 ^ 31) \<le> uint w" by (rule order_trans[of _ 0]) simp_all
  have "sint w = signed_take_bit (LENGTH(32) - Suc 0) (uint w)" by (rule sint_uint)
  also have "LENGTH(32) - Suc 0 = 31" by simp
  also have "signed_take_bit 31 (uint w) = uint w"
    using ge lt by (rule signed_take_bit_int_eq_self)
  also have "uint w = int (unat w)" by (rule uint_nat)
  finally show ?thesis .
qed

lemma roundup_ge:
  assumes "0 < P" and "N + P \<le> 2 ^ 31"
  shows "int N \<le> sint (roundup (word_of_nat N) (word_of_nat P))"
proof -
  define R where "R = ((N + P - 1) div P) * P"
  have NP: "N + P - 1 < 2 ^ 32" "N < 2 ^ 32" "P < 2 ^ 32" using assms by simp_all
  have uN: "unat (word_of_nat N :: u32) = N" using NP by (simp add: unat_of_nat)
  have uP: "unat (word_of_nat P :: u32) = P" using NP by (simp add: unat_of_nat)
  have s: "(word_of_nat N :: u32) + word_of_nat P - 1 = word_of_nat (N + P - 1)"
    using assms(1) by (simp add: of_nat_diff)
  have uS: "unat ((word_of_nat N :: u32) + word_of_nat P - 1) = N + P - 1"
    unfolding s using NP by (simp add: unat_of_nat)
  have uD: "unat (((word_of_nat N :: u32) + word_of_nat P - 1) div word_of_nat P) = (N + P - 1) div P"
    by (simp only: unat_div uS uP)
  have Rle: "R \<le> N + P - 1" unfolding R_def by simp
  have RgeN: "N \<le> R"
  proof -
    have "N + P - 1 = R + (N + P - 1) mod P" unfolding R_def by simp
    moreover have "(N + P - 1) mod P < P" using assms(1) by simp
    ultimately show ?thesis by linarith
  qed
  have uR: "unat (roundup (word_of_nat N) (word_of_nat P :: u32)) = R"
  proof -
    have "unat (roundup (word_of_nat N) (word_of_nat P :: u32)) =
          ((N + P - 1) div P * P) mod 2 ^ 32"
      unfolding roundup_def by (simp only: unat_word_ariths(2) uD uP) simp
    also have "\<dots> = R mod 2 ^ 32" by (simp only: R_def)
    also have "\<dots> = R" using Rle NP(1) by (intro mod_less) linarith
    finally show ?thesis .
  qed
  have "R < 2 ^ 31" using Rle assms by simp
  then show ?thesis using sint_small[of "roundup (word_of_nat N) (word_of_nat P)"] uR RgeN by simp
qed

lemma init_calm:
  "\<exists>sti. read_evt_init_with acr_codes test_defs calm_env acr_init = (Inr (), sti)"
  by (simp add: read_evt_init_with_def for_loop_unroll SHWR_RAW_NCH_MAX_def map_shwr_def
      mmap_or_exit_def call_or_exit_def syscall_def emit_def now_def Let_def calm_env_def
      test_env_def acr_init_def)

text \<open>
  Claim C6. Take the geometry constants as parameters: a positive page size, a slot depth
  \<open>SHWR_MEM_DEPTH\<close> of at least \<open>4 * SHWR_NSAMPLES\<close> bytes, and a window size that fits a
  signed 32-bit integer. After \<^verbatim>\<open>read_evt_init\<close> has succeeded, a drain whose status
  register gives a slot index below \<open>SHWR_MEM_NBUF\<close> returns without a fault: every
  channel is mapped and the last byte of the slot lies inside the window of
  \<open>shwr_mem_size\<close> bytes. And \<open>convert_databuf\<close> returns without a fault on a buffer of
  \<open>DATASIZE\<close> words when the start offset of the header is below \<open>SHWR_NSAMPLES\<close>:
  no read leaves the staging buffer.
\<close>

theorem reads_stay_in_bounds:
  fixes st0 sti st :: acr_proc
  assumes "0 < PAGESIZE d"
    and "4 * SHWR_NSAMPLES \<le> SHWR_MEM_DEPTH d"
    and "SHWR_MEM_DEPTH d * SHWR_MEM_NBUF d + PAGESIZE d \<le> 2 ^ 31"
    and "length (shwr_pt (gl st0)) = SHWR_RAW_NCH_MAX"
    and "read_evt_init_with acr_codes d env0 st0 = (Inr (), sti)"
    and "shwr_pt (gl st) = shwr_pt (gl sti)"
    and "shwr_mem_size (gl st) = shwr_mem_size (gl sti)"
    and "unat (slot_of d (hw_reg env (now st) Regs (SHWR_BUF_STATUS_ADDR d))) < SHWR_MEM_NBUF d"
  shows "(\<exists>st'. drain d env acr_store st = (Inr (), st')) \<and>
         (\<forall>i<SHWR_RAW_NCH_MAX. shwr_pt (gl st) ! i = Some (Shwr i)) \<and>
         4 * int (unat (slot_of d (hw_reg env (now st) Regs (SHWR_BUF_STATUS_ADDR d))) * SHWR_NSAMPLES
                  + SHWR_NSAMPLES) \<le> shwr_mem_size (gl st) \<and>
         (length buf = DATASIZE \<longrightarrow> unat (shwr_buf_start hdr) < SHWR_NSAMPLES \<longrightarrow>
            trace_shape trc \<longrightarrow> (\<exists>out. convert_databuf hdr buf trc = Inr out))"
proof -
  define slot where "slot = unat (slot_of d (hw_reg env (now st) Regs (SHWR_BUF_STATUS_ADDR d)))"
  define N where "N = SHWR_MEM_DEPTH d * SHWR_MEM_NBUF d"
  from init_result[OF assms(4), where ec=acr_codes and d=d and env=env0] assms(5)
  have am: "all_mapped (gl sti)"
    and sz: "shwr_mem_size (gl sti) = sint (roundup (word_of_nat N) (word_of_nat (PAGESIZE d)))"
    by (simp_all add: N_def)
  have "int N \<le> shwr_mem_size (gl st)"
    using roundup_ge[OF assms(1), of N] assms(3) sz assms(7) by (simp add: N_def)
  moreover have "4 * (slot * SHWR_NSAMPLES + SHWR_NSAMPLES) \<le> N"
  proof -
    have "4 * (slot * SHWR_NSAMPLES + SHWR_NSAMPLES) = (slot + 1) * (4 * SHWR_NSAMPLES)"
      by (simp add: algebra_simps)
    also have "\<dots> \<le> SHWR_MEM_NBUF d * SHWR_MEM_DEPTH d"
      using assms(8) assms(2) by (intro mult_mono) (simp_all add: slot_def)
    finally show ?thesis by (simp add: N_def mult.commute)
  qed
  ultimately have inside: "4 * int (slot * SHWR_NSAMPLES + SHWR_NSAMPLES) \<le> shwr_mem_size (gl st)"
    by linarith
  have pts: "\<forall>i<SHWR_RAW_NCH_MAX. shwr_pt (gl st) ! i = Some (Shwr i)"
    using am assms(6) by (simp add: all_mapped_def)
  have fits: "window_fits st (slot * SHWR_NSAMPLES)"
    using inside pts by (simp add: window_fits_def)
  have dr: "\<exists>st'. drain d env acr_store st = (Inr (), st')"
    using drain_succeeds[OF store_frame_acr, where st=st and d=d and env=env] fits by (simp add: slot_def)
  have conv: "\<exists>out. convert_databuf hdr buf trc = Inr out"
    if "length buf = DATASIZE" "unat (shwr_buf_start hdr) < SHWR_NSAMPLES" "trace_shape trc"
    using convert_channels_spec[OF that(3) that(1) that(2), of 0]
    by (auto simp: convert_databuf_def)
  show ?thesis
    using dr pts inside conv unfolding slot_def by blast
qed

theorem reads_stay_in_bounds_witness:
  "\<exists>sti st' out.
     read_evt_init_with acr_codes test_defs calm_env acr_init = (Inr (), sti) \<and>
     drain test_defs (status_env 20 48) acr_store sti = (Inr (), st') \<and>
     shwr_mem_size (gl sti) \<ge> 4 * 4096 \<and>
     convert_databuf \<lparr>sh_id = 0, shwr_buf_status = 0, shwr_buf_start = 2047, shwr_buf_trig_id = 0,
        ttag_shwr_seconds = 0, ttag_shwr_nanosec = 0, rd = 0\<rparr>
       (replicate 10240 0) (replicate 10 (replicate 2048 0)) = Inr out"
proof -
  obtain sti where i: "read_evt_init_with acr_codes test_defs calm_env acr_init = (Inr (), sti)"
    using init_calm by blast
  have g1: "0 < PAGESIZE test_defs" by (simp add: test_defs_def)
  have g2: "4 * SHWR_NSAMPLES \<le> SHWR_MEM_DEPTH test_defs"
    by (simp add: test_defs_def SHWR_NSAMPLES_def)
  have g3: "SHWR_MEM_DEPTH test_defs * SHWR_MEM_NBUF test_defs + PAGESIZE test_defs \<le> 2 ^ 31"
    by (simp add: test_defs_def)
  have l: "length (shwr_pt (gl acr_init)) = SHWR_RAW_NCH_MAX" by (simp add: acr_init_def)
  have v: "unat (slot_of test_defs (hw_reg (status_env 20 48) (now sti) Regs (SHWR_BUF_STATUS_ADDR test_defs)))
             < SHWR_MEM_NBUF test_defs"
    by (simp add: slot_of_def test_defs_def status_env_def)
  have s: "unat (slot_of test_defs (hw_reg (status_env 20 48) (now sti) Regs (SHWR_BUF_STATUS_ADDR test_defs))) = 1"
    by (simp add: slot_of_def test_defs_def status_env_def)
  have b: "length (replicate 10240 (0::u32)) = DATASIZE"
    by (simp add: DATASIZE_def SHWR_NSAMPLES_def SHWR_RAW_NCH_MAX_def)
  have h: "unat (shwr_buf_start \<lparr>sh_id = 0, shwr_buf_status = 0, shwr_buf_start = 2047, shwr_buf_trig_id = 0,
        ttag_shwr_seconds = 0, ttag_shwr_nanosec = 0, rd = 0\<rparr>) < SHWR_NSAMPLES"
    by (simp add: SHWR_NSAMPLES_def)
  from reads_stay_in_bounds[OF g1 g2 g3 l i refl refl v, of "replicate 10240 0" _ "replicate 10 (replicate 2048 0)"]
    b h trace_shape_zero s
  show ?thesis using i by (simp add: SHWR_NSAMPLES_def)
qed

subsection \<open>Self-test tool: exit handlers and the result of main\<close>

lemma quiet_refl [simp]: "quiet st st"
  by (simp add: quiet_def)

lemma quiet_trans:
  assumes "quiet a b" and "quiet b c"
  shows "quiet a c"
proof -
  from assms(1) obtain n1 where 1: "events b = events a @ n1" "mapped n1 = []" "unmapped n1 = []"
    "registered n1 = []" unfolding quiet_def by blast
  from assms(2) obtain n2 where 2: "events c = events b @ n2" "mapped n2 = []" "unmapped n2 = []"
    "registered n2 = []" unfolding quiet_def by blast
  have "events c = events a @ (n1 @ n2) \<and> mapped (n1 @ n2) = [] \<and> unmapped (n1 @ n2) = [] \<and>
        registered (n1 @ n2) = []"
    using 1 2 by simp
  then have "\<exists>new. events c = events a @ new \<and> mapped new = [] \<and> unmapped new = [] \<and>
        registered new = []" by blast
  then show ?thesis using assms unfolding quiet_def by simp
qed

lemma quiet_emit:
  "mapped_of e = [] \<Longrightarrow> unmapped_of e = [] \<Longrightarrow> registered_of e = [] \<Longrightarrow> quiet st (emit e st)"
  by (simp add: quiet_def)

lemma quiet_loop:
  assumes body: "\<And>j s. j < n \<Longrightarrow> quiet s (snd (body j s))"
  shows "quiet st (snd (for_loop i n body st))"
proof (cases "i \<le> n")
  case True
  have "case for_loop i n body st of (Inr u, s') \<Rightarrow> quiet st s' | (Inl e, s') \<Rightarrow> quiet st s'"
  proof (rule for_loop_rule[where I = "\<lambda>j s. quiet st s" and Q = "\<lambda>e s. quiet st s"])
    show "quiet st st" by simp
    show "i \<le> n" by (rule True)
  next
    fix j s assume "j < n" "quiet st s"
    then have "quiet st (snd (body j s))" using body quiet_trans by blast
    then show "case body j s of (Inr u, s') \<Rightarrow> quiet st s' | (Inl e, s') \<Rightarrow> quiet st s'"
      by (auto split: prod.splits sum.splits)
  qed
  then show ?thesis by (auto split: prod.splits sum.splits)
next
  case False
  then show ?thesis by (simp add: for_loop_end)
qed

lemma quiet_syscall:
  "(\<And>r. c \<noteq> SysMmap r) \<Longrightarrow> (\<And>r. c \<noteq> SysMunmap r) \<Longrightarrow> quiet st (snd (syscall env c st))"
  by (cases c) (auto simp: syscall_def Let_def intro!: quiet_emit)

lemma quiet_reg_read: "quiet st (snd (reg_read env blk addr st))"
  by (simp add: reg_read_def Let_def quiet_emit)

lemma quiet_reg_write: "quiet st (reg_write blk addr v st)"
  by (simp add: reg_write_def quiet_emit)

lemma quiet_parse_opts: "quiet st (snd (parse_opts opts verbose st))"
proof (induction opts verbose st rule: parse_opts.induct)
  case (2 optarg rest verbose st)
  have "quiet st (st\<lparr>adc_trace_fn := Some optarg\<rparr>)" by (simp add: quiet_def)
  then show ?case using 2 quiet_trans by auto
qed simp_all

lemma quiet_ioctl: "quiet st (snd (ioctl_or_exit env fd req code st))"
  using quiet_syscall[of "SysIoctl fd req" st env]
  by (auto simp: ioctl_or_exit_def Let_def split: prod.splits)

lemma quiet_seq:
  assumes "quiet st (snd m)" and "\<And>v s. quiet s (snd (f v s))"
  shows "quiet st (snd (seq m f))"
proof (cases m)
  case (Pair r s)
  then show ?thesis
    using assms quiet_trans[of st s "snd (f _ s)"] by (cases r) auto
qed

lemma quiet_spi_init: "quiet st (snd (spi_init env fd st))"
  unfolding spi_init_def by (intro quiet_seq quiet_ioctl)

lemma quiet_openspidev: "quiet st (snd (openspidev env adc st))"
  using quiet_syscall[of "SysOpenSpi adc" st env]
  by (auto simp: openspidev_def Let_def split: prod.splits)

lemma quiet_open_adc: "quiet st (snd (open_adc env i st))"
  unfolding open_adc_def
proof (intro quiet_seq quiet_openspidev quiet_spi_init)
  fix v :: unit and s :: acr_proc and fd :: int
  show "quiet s (snd (Inr (), s\<lparr>adcfd := (adcfd s)[i := fd]\<rparr>))" by (simp add: quiet_def)
qed

lemma quiet_adc_write: "quiet st (snd (adc_write env fd a c st))"
proof -
  obtain n st1 where s: "syscall env (SysWrite fd (cmdstr a c)) st = (n, st1)"
    by (cases "syscall env (SysWrite fd (cmdstr a c)) st")
  have q: "quiet st st1" using quiet_syscall[of "SysWrite fd (cmdstr a c)" st env] s by simp
  have "quiet st1 (st1\<lparr>failedadcfd := fd\<rparr>)" by (simp add: quiet_def)
  then have "quiet st (st1\<lparr>failedadcfd := fd\<rparr>)" using q quiet_trans by blast
  then show ?thesis using q s by (simp add: adc_write_def)
qed

lemma quiet_settestmode_body: "quiet st (snd (adc_settestmode_body env tm i st))"
  unfolding adc_settestmode_body_def Let_def
  by (auto intro!: quiet_seq quiet_adc_write quiet_emit)

lemma quiet_settestmode: "quiet st (snd (adc_settestmode env tm st))"
  unfolding adc_settestmode_def by (intro quiet_loop quiet_settestmode_body)

lemma quiet_close_adc: "quiet st (snd (close_adc env i st))"
proof -
  obtain r st1 where s: "syscall env (SysClose (adcfd st ! i)) st = (r, st1)"
    by (cases "syscall env (SysClose (adcfd st ! i)) st")
  have q: "quiet st st1" using quiet_syscall[of "SysClose (adcfd st ! i)" st env] s by simp
  have "quiet st1 (st1\<lparr>adcfd := (adcfd st1)[i := - 1]\<rparr>)" by (simp add: quiet_def)
  then show ?thesis using q s quiet_trans by (auto simp: close_adc_def)
qed

lemma quiet_adc_normal: "quiet st (snd (adc_normal env st))"
  unfolding adc_normal_def
  by (intro quiet_seq quiet_settestmode quiet_loop quiet_close_adc)

lemma quiet_restore_trigger: "quiet st (snd (restore_trigger d st))"
  by (simp add: restore_trigger_def quiet_reg_write)

lemma quiet_LED_trigger: "quiet st (LED_trigger d st)"
  unfolding LED_trigger_def using quiet_reg_write quiet_trans by blast

lemma wait_quiet:
  fixes st :: acr_proc
  shows "wait_trigger d env fuel sig st = Some (sig', st1) \<Longrightarrow> quiet st st1"
proof (induction fuel arbitrary: sig st)
  case 0
  then show ?case by simp
next
  case (Suc fuel)
  obtain v sa where r: "reg_read env Regs (SHWR_BUF_STATUS_ADDR d) st = (v, sa)"
    by (cases "reg_read env Regs (SHWR_BUF_STATUS_ADDR d) st")
  have qa: "quiet st sa" using quiet_reg_read[of st env Regs "SHWR_BUF_STATUS_ADDR d"] r by simp
  show ?case
  proof (cases "v AND push_bit (SHWR_BUF_NFULL_SHIFT d) (SHWR_BUF_NFULL_MASK d) = 0 \<and> sig = SIG_WAKEUP d")
    case False
    then have "st1 = sa" using Suc.prems r by auto
    then show ?thesis using qa by simp
  next
    case True
    obtain s1 sb where c: "syscall env SysSigwaitinfo sa = (s1, sb)"
      by (cases "syscall env SysSigwaitinfo sa")
    have qb: "quiet sa sb" using quiet_syscall[of SysSigwaitinfo sa env] c by simp
    have "wait_trigger d env fuel s1 sb = Some (sig', st1)"
      using Suc.prems True r c by simp
    then have "quiet sb st1" by (rule Suc.IH)
    then show ?thesis using qa qb quiet_trans by blast
  qed
qed

lemma quiet_copy_channel: "quiet st (snd (copy_channel env acr_store offset i st))"
  by (simp add: copy_channel_def acr_store_def quiet_def emit_def)

lemma quiet_drain: "quiet st (snd (drain d env acr_store st))"
proof -
  obtain v sa where r: "reg_read env Regs (SHWR_BUF_STATUS_ADDR d) st = (v, sa)"
    by (cases "reg_read env Regs (SHWR_BUF_STATUS_ADDR d) st")
  have qa: "quiet st sa" using quiet_reg_read[of st env Regs "SHWR_BUF_STATUS_ADDR d"] r by simp
  have "quiet sa (snd (drain d env acr_store st))"
    unfolding drain_def r
    apply (simp add: Let_def)
    apply (rule quiet_seq)
     apply (rule quiet_loop)
     apply (rule quiet_copy_channel)
    apply (simp add: reg_read_def reg_write_def emit_def Let_def quiet_def)
    done
  then show ?thesis using qa quiet_trans by blast
qed

lemma acr_read_quiet:
  assumes "acr_read_evt_read d env fuel st = Some (r, st')"
  shows "quiet st st' \<and> (\<forall>e. r = Inl e \<longrightarrow> e = Fault OutOfBounds)"
proof -
  from assms obtain sig st1 where w: "wait_trigger d env fuel (SIG_WAKEUP d) st = Some (sig, st1)"
    by (auto simp: acr_read_evt_read_def split: option.splits)
  have q1: "quiet st st1" using w by (rule wait_quiet)
  show ?thesis
  proof (cases "sig = SIG_WAKEUP d")
    case False
    then show ?thesis using assms w q1 by (auto simp: acr_read_evt_read_def)
  next
    case True
    obtain r2 st2 where dr: "drain d env acr_store st1 = (r2, st2)"
      by (cases "drain d env acr_store st1")
    have q2: "quiet st1 st2" using quiet_drain[of st1 d env] dr by simp
    have f: "\<forall>e. r2 = Inl e \<longrightarrow> e = Fault OutOfBounds"
      using drain_result[OF store_frame_acr, where d=d and env=env and st=st1] dr by auto
    have "st' = st2" "(\<forall>e. r = Inl e \<longrightarrow> r2 = Inl e)"
      using assms w True dr by (auto simp: acr_read_evt_read_def Let_def split: sum.splits)
    then show ?thesis using q1 q2 f quiet_trans by blast
  qed
qed

lemma fresh_unregistered: "quiet acr_init st \<Longrightarrow> unregistered st"
  by (auto simp: quiet_def unregistered_def acr_init_def)

lemma ready_quiet: "ready hs st \<Longrightarrow> quiet st st' \<Longrightarrow> ready hs st'"
  by (auto simp: ready_def quiet_def all_mapped_def)

lemma ready_atexit: "ready hs st \<Longrightarrow> ready (h # hs) (atexit h st)"
  by (simp add: ready_def atexit_def emit_def)

lemma seq_rule:
  assumes "case m of (Inr v, s) \<Rightarrow> P v s | (Inl e, s) \<Rightarrow> Q (Inl e, s)"
    and "\<And>v s. P v s \<Longrightarrow> Q (f v s)"
  shows "Q (seq m f)"
  using assms by (cases m) (auto simp: seq_def split: sum.splits)

lemma init_ready:
  assumes "quiet acr_init st"
  shows "case read_evt_init_with acr_codes d env st of
           (Inr u, s) \<Rightarrow> ready [] s | (Inl e, s) \<Rightarrow> setup_outcome (Inl e, s)"
proof -
  have len: "length (shwr_pt (gl st)) = SHWR_RAW_NCH_MAX"
    and ex: "exit_funcs st = []"
    and ev: "mapped (events st) = []" "unmapped (events st) = []" "registered (events st) = []"
    using assms by (auto simp: quiet_def acr_init_def)
  obtain r s where res: "read_evt_init_with acr_codes d env st = (r, s)"
    by (cases "read_evt_init_with acr_codes d env st")
  note ir = init_result[OF len, where ec=acr_codes and d=d and env=env, unfolded res]
  show ?thesis
  proof (cases r)
    case (Inl e)
    then obtain new where fr: "s = st\<lparr>events := events s, gl := gl s\<rparr>"
      and n: "events s = events st @ new" "unmapped new = []" "registered new = []"
      using ir by auto
    have "exit_funcs s = []" by (subst fr) (simp add: ex)
    then have "unregistered s" using n ev by (simp add: unregistered_def)
    then show ?thesis using res Inl by (simp add: setup_outcome_def)
  next
    case (Inr u)
    then obtain new where fr: "s = st\<lparr>events := events s, gl := gl s\<rparr>"
      and am: "all_mapped (gl s)"
      and n: "events s = events st @ new" "mapped new = all_regions" "unmapped new = []"
        "registered new = []"
      using ir by auto
    have "exit_funcs s = []" by (subst fr) (simp add: ex)
    then have "ready [] s" using n ev am by (simp add: ready_def)
    then show ?thesis using res Inr by simp
  qed
qed

lemma settest_stage:
  assumes "ready [H_restore_trigger, H_read_evt_end] st"
  shows "case adc_settestmode env tm st of
           (Inr v, s) \<Rightarrow> ready [H_restore_trigger, H_read_evt_end] s
         | (Inl e, s) \<Rightarrow> setup_outcome (Inl e, s)"
proof -
  obtain r s where res: "adc_settestmode env tm st = (r, s)" by (cases "adc_settestmode env tm st")
  have "quiet st s" using quiet_settestmode[of st env tm] res by simp
  then have rd: "ready [H_restore_trigger, H_read_evt_end] s" using assms ready_quiet by blast
  have "r = Inl e \<Longrightarrow> e = Exit EXIT_SPIWRITE" for e
    using adc_settestmode_runs[of env tm st] res by auto
  then show ?thesis using rd res by (cases r) (auto simp: setup_outcome_def)
qed

lemma tail4:
  fixes st :: acr_proc
  assumes "ready [H_restore_trigger, H_read_evt_end] st"
  shows "setup_outcome
         (let st = atexit H_adc_normal st;
              st = LED_trigger d st
          in (Inr (), st))"
proof -
  have "ready [H_adc_normal, H_restore_trigger, H_read_evt_end] (atexit H_adc_normal st)"
    using assms by (rule ready_atexit)
  then have "ready [H_adc_normal, H_restore_trigger, H_read_evt_end]
               (LED_trigger d (atexit H_adc_normal st))"
    using quiet_LED_trigger ready_quiet by blast
  then show ?thesis by (simp add: setup_outcome_def Let_def)
qed

lemma tail3:
  fixes st :: acr_proc
  assumes "ready [] st"
  shows "setup_outcome
         (let st = atexit H_read_evt_end st;
              (v, st) = reg_read env Regs (SHWR_BUF_TRIG_MASK_ADDR d) st;
              st = st\<lparr>saved_trigger := v\<rparr>;
              st = reg_write Regs (SHWR_BUF_TRIG_MASK_ADDR d) (SHWR_BUF_TRIG_LED d) st;
              st = atexit H_restore_trigger st;
              (f, st) = reg_read env TstctlRegs (USE_FAKE_ADDR d) st;
              st = reg_write TstctlRegs (USE_FAKE_ADDR d) (f OR push_bit (USE_FAKE_PPS_BIT d) 1) st
          in
          seq (adc_settestmode env RAMPON st) (\<lambda>_ st.
          let st = atexit H_adc_normal st;
              st = LED_trigger d st
          in (Inr (), st)))"
  unfolding Let_def reg_read_def split_conv
  apply (rule seq_rule[where Q = setup_outcome
        and P = "\<lambda>v s. ready [H_restore_trigger, H_read_evt_end] s"])
   apply (rule settest_stage)
   using assms apply (simp add: ready_def atexit_def emit_def reg_write_def now_def)
  apply (drule tail4[where d=d])
  apply (simp add: Let_def)
  done

lemma tail2:
  fixes st :: acr_proc
  assumes "quiet acr_init st"
  shows "setup_outcome
         (seq (read_evt_init_with acr_codes d env st) (\<lambda>_ st.
          let st = atexit H_read_evt_end st;
              (v, st) = reg_read env Regs (SHWR_BUF_TRIG_MASK_ADDR d) st;
              st = st\<lparr>saved_trigger := v\<rparr>;
              st = reg_write Regs (SHWR_BUF_TRIG_MASK_ADDR d) (SHWR_BUF_TRIG_LED d) st;
              st = atexit H_restore_trigger st;
              (f, st) = reg_read env TstctlRegs (USE_FAKE_ADDR d) st;
              st = reg_write TstctlRegs (USE_FAKE_ADDR d) (f OR push_bit (USE_FAKE_PPS_BIT d) 1) st
          in
          seq (adc_settestmode env RAMPON st) (\<lambda>_ st.
          let st = atexit H_adc_normal st;
              st = LED_trigger d st
          in (Inr (), st))))"
  apply (rule seq_rule[where Q = setup_outcome and P = "\<lambda>v s. ready [] s"])
   apply (rule init_ready[OF assms])
  apply (erule tail3)
  done

lemma tail1:
  fixes st :: acr_proc
  assumes "quiet acr_init st"
  shows "setup_outcome
         (let st = st\<lparr>adcfd := replicate SHWR_RAW_NCH_MAX (- 1)\<rparr> in
          seq (for_loop 0 SHWR_RAW_NCH_MAX (open_adc env) st) (\<lambda>_ st.
          seq (read_evt_init_with acr_codes d env st) (\<lambda>_ st.
          let st = atexit H_read_evt_end st;
              (v, st) = reg_read env Regs (SHWR_BUF_TRIG_MASK_ADDR d) st;
              st = st\<lparr>saved_trigger := v\<rparr>;
              st = reg_write Regs (SHWR_BUF_TRIG_MASK_ADDR d) (SHWR_BUF_TRIG_LED d) st;
              st = atexit H_restore_trigger st;
              (f, st) = reg_read env TstctlRegs (USE_FAKE_ADDR d) st;
              st = reg_write TstctlRegs (USE_FAKE_ADDR d) (f OR push_bit (USE_FAKE_PPS_BIT d) 1) st
          in
          seq (adc_settestmode env RAMPON st) (\<lambda>_ st.
          let st = atexit H_adc_normal st;
              st = LED_trigger d st
          in (Inr (), st)))))"
proof -
  define s2 where "s2 = st\<lparr>adcfd := replicate SHWR_RAW_NCH_MAX (- 1)\<rparr>"
  have "quiet st s2" by (simp add: quiet_def s2_def)
  then have q2: "quiet acr_init s2" using assms quiet_trans by blast
  have "quiet s2 (snd (for_loop 0 SHWR_RAW_NCH_MAX (open_adc env) s2))"
    by (intro quiet_loop quiet_open_adc)
  then have q3: "quiet acr_init (snd (for_loop 0 SHWR_RAW_NCH_MAX (open_adc env) s2))"
    using q2 quiet_trans by blast
  show ?thesis
    apply (subst Let_def)
    apply (fold s2_def)
    apply (rule seq_rule[where Q = setup_outcome and P = "\<lambda>v s. quiet acr_init s"])
    using q3 apply (auto simp: setup_outcome_def fresh_unregistered split: prod.splits sum.splits)[1]
    apply (erule tail2)
    done
qed

lemma setup_result:
  "setup_outcome
     (seq (parse_opts opts False acr_init) (\<lambda>verbose st.
          let st = st\<lparr>adcfd := replicate SHWR_RAW_NCH_MAX (- 1)\<rparr> in
          seq (for_loop 0 SHWR_RAW_NCH_MAX (open_adc env) st) (\<lambda>_ st.
          seq (read_evt_init_with acr_codes d env st) (\<lambda>_ st.
          let st = atexit H_read_evt_end st;
              (v, st) = reg_read env Regs (SHWR_BUF_TRIG_MASK_ADDR d) st;
              st = st\<lparr>saved_trigger := v\<rparr>;
              st = reg_write Regs (SHWR_BUF_TRIG_MASK_ADDR d) (SHWR_BUF_TRIG_LED d) st;
              st = atexit H_restore_trigger st;
              (f, st) = reg_read env TstctlRegs (USE_FAKE_ADDR d) st;
              st = reg_write TstctlRegs (USE_FAKE_ADDR d) (f OR push_bit (USE_FAKE_PPS_BIT d) 1) st
          in
          seq (adc_settestmode env RAMPON st) (\<lambda>_ st.
          let st = atexit H_adc_normal st;
              st = LED_trigger d st
          in (Inr (), st))))))"
proof (rule seq_rule[where Q = setup_outcome and P = "\<lambda>v s. quiet acr_init s"])
  have "quiet acr_init (snd (parse_opts opts False acr_init))" by (rule quiet_parse_opts)
  then show "case parse_opts opts False acr_init of
          (Inr v, s) \<Rightarrow> quiet acr_init s | (Inl e, s) \<Rightarrow> setup_outcome (Inl e, s)"
    by (auto simp: setup_outcome_def fresh_unregistered split: prod.splits sum.splits)
next
  fix v :: bool and s1 :: acr_proc
  assume "quiet acr_init s1"
  then show "setup_outcome
     (let st = s1\<lparr>adcfd := replicate SHWR_RAW_NCH_MAX (- 1)\<rparr> in
          seq (for_loop 0 SHWR_RAW_NCH_MAX (open_adc env) st) (\<lambda>_ st.
          seq (read_evt_init_with acr_codes d env st) (\<lambda>_ st.
          let st = atexit H_read_evt_end st;
              (v, st) = reg_read env Regs (SHWR_BUF_TRIG_MASK_ADDR d) st;
              st = st\<lparr>saved_trigger := v\<rparr>;
              st = reg_write Regs (SHWR_BUF_TRIG_MASK_ADDR d) (SHWR_BUF_TRIG_LED d) st;
              st = atexit H_restore_trigger st;
              (f, st) = reg_read env TstctlRegs (USE_FAKE_ADDR d) st;
              st = reg_write TstctlRegs (USE_FAKE_ADDR d) (f OR push_bit (USE_FAKE_PPS_BIT d) 1) st
          in
          seq (adc_settestmode env RAMPON st) (\<lambda>_ st.
          let st = atexit H_adc_normal st;
              st = LED_trigger d st
          in (Inr (), st)))))"
    by (rule tail1)
qed

lemma acr_main_outcome:
  assumes "acr_main d env fuel opts acr_init = Some (out, st)"
  shows "main_outcome (out, st)"
proof (cases "align_problem env")
  case True
  then have "st = acr_init" "out = Inl (Exit EXIT_BUFALIGN)" using assms by (simp_all add: acr_main_def)
  then show ?thesis by (simp add: main_outcome_def unregistered_def acr_init_def)
next
  case False
  define chain where "chain =
     seq (parse_opts opts False acr_init) (\<lambda>verbose st.
          let st = st\<lparr>adcfd := replicate SHWR_RAW_NCH_MAX (- 1)\<rparr> in
          seq (for_loop 0 SHWR_RAW_NCH_MAX (open_adc env) st) (\<lambda>_ st.
          seq (read_evt_init_with acr_codes d env st) (\<lambda>_ st.
          let st = atexit H_read_evt_end st;
              (v, st) = reg_read env Regs (SHWR_BUF_TRIG_MASK_ADDR d) st;
              st = st\<lparr>saved_trigger := v\<rparr>;
              st = reg_write Regs (SHWR_BUF_TRIG_MASK_ADDR d) (SHWR_BUF_TRIG_LED d) st;
              st = atexit H_restore_trigger st;
              (f, st) = reg_read env TstctlRegs (USE_FAKE_ADDR d) st;
              st = reg_write TstctlRegs (USE_FAKE_ADDR d) (f OR push_bit (USE_FAKE_PPS_BIT d) 1) st
          in
          seq (adc_settestmode env RAMPON st) (\<lambda>_ st.
          let st = atexit H_adc_normal st;
              st = LED_trigger d st
          in (Inr (), st)))))"
  obtain r s where c: "chain = (r, s)" by (cases chain)
  have so: "setup_outcome (r, s)" using setup_result[of opts env d] c by (simp add: chain_def)
  have m: "acr_main d env fuel opts acr_init =
      (case chain of
          (Inl e, st) \<Rightarrow> Some (Inl e, st)
        | (Inr u, st) \<Rightarrow>
            (case acr_read_evt_read d env fuel st of
               None \<Rightarrow> None
             | Some (Inl e, st) \<Rightarrow> Some (Inl e, st)
             | Some (Inr duration, st) \<Rightarrow>
                 (case convert_databuf (sh st) (databuf st) (traces st) of
                    Inl f \<Rightarrow> Some (Inl (Fault f), st)
                  | Inr tr \<Rightarrow>
                      (let st = st\<lparr>traces := tr\<rparr>
                       in Some (Inr (evaluate_ramp (traces st)), st)))))"
    using False unfolding acr_main_def chain_def by simp
  show ?thesis
  proof (cases r)
    case (Inl e)
    then have "out = Inl e" "st = s" using assms m c by simp_all
    then show ?thesis using so Inl by (auto simp: setup_outcome_def main_outcome_def)
  next
    case (Inr u)
    then have rd: "ready [H_adc_normal, H_restore_trigger, H_read_evt_end] s"
      using so by (simp add: setup_outcome_def)
    from assms m c Inr obtain r2 s2 where rr: "acr_read_evt_read d env fuel s = Some (r2, s2)"
      by (cases "acr_read_evt_read d env fuel s") auto
    from acr_read_quiet[OF rr] have q: "quiet s s2"
      and f: "\<And>e. r2 = Inl e \<Longrightarrow> e = Fault OutOfBounds" by auto
    have rd2: "ready [H_adc_normal, H_restore_trigger, H_read_evt_end] s2"
      using rd q by (rule ready_quiet)
    show ?thesis
    proof (cases r2)
      case (Inl e)
      have e: "e = Fault OutOfBounds" using f[OF Inl] .
      have "out = Inl e" "st = s2" using assms m c Inr rr Inl by simp_all
      then show ?thesis using rd2 e by (simp add: main_outcome_def)
    next
      case r2: (Inr duration)
      show ?thesis
      proof (cases "convert_databuf (sh s2) (databuf s2) (traces s2)")
        case (Inl f)
        then have "out = Inl (Fault f)" "st = s2" using assms m c Inr rr r2 by simp_all
        moreover have "f = OutOfBounds" by (cases f) simp
        ultimately show ?thesis using rd2 by (simp add: main_outcome_def)
      next
        case (Inr tr)
        then have o: "out = Inr (evaluate_ramp tr)" and s: "st = s2\<lparr>traces := tr\<rparr>"
          using assms m c \<open>r = Inr u\<close> rr r2 by (simp_all add: Let_def)
        have "quiet s2 st" by (simp add: s quiet_def)
        then have "ready [H_adc_normal, H_restore_trigger, H_read_evt_end] st"
          using rd2 ready_quiet by blast
        then show ?thesis using o s by (simp add: main_outcome_def)
      qed
    qed
  qed
qed

lemma unmap_events_simps [simp]:
  "unmapped (unmap_events env t) = all_regions"
  "mapped (unmap_events env t) = []"
  "registered (unmap_events env t) = []"
  by (simp_all add: unmap_events_def all_regions_def SHWR_RAW_NCH_MAX_def mapped_def
      unmapped_def registered_def eval_nat_numeral upt_rec)

lemma munmap_if_Some:
  fixes st :: "'a proc_scheme"
  shows "munmap_if env (Some r) st =
     st\<lparr>events := events st @ [Call (SysMunmap r) (sys_ret env (length (events st)) (SysMunmap r))]\<rparr>"
  by (simp add: munmap_if_def syscall_def emit_def now_def Let_def)

lemma read_evt_end_runs:
  fixes st :: "'a proc_scheme"
  assumes "all_mapped (gl st)"
  shows "read_evt_end env st =
           (Inr (), st\<lparr>events := events st @ unmap_events env (length (events st))\<rparr>)"
proof -
  have p: "\<And>i. i < 5 \<Longrightarrow> shwr_pt (gl st) ! i = Some (Shwr i)"
    using assms by (simp add: all_mapped_def SHWR_RAW_NCH_MAX_def)
  have r: "regs (gl st) = Some Regs" "tt_regs (gl st) = Some TtRegs"
    "tstctl_regs (gl st) = Some TstctlRegs"
    using assms by (simp_all add: all_mapped_def)
  show ?thesis
    unfolding read_evt_end_def unmap_shwr_def
    by (simp add: p r for_loop_unroll for_loop_end SHWR_RAW_NCH_MAX_def munmap_if_Some
        Let_def unmap_events_def all_regions_def upt_rec)
qed

lemma read_evt_end_returns: "fst (read_evt_end env st) = Inr ()"
proof -
  have "fst (for_loop 0 SHWR_RAW_NCH_MAX (unmap_shwr env) s) = Inr ()" for s :: "'a proc_scheme"
  proof -
    have "case for_loop 0 SHWR_RAW_NCH_MAX (unmap_shwr env) s of
            (Inr u, s') \<Rightarrow> True | (Inl e, s') \<Rightarrow> False"
      by (rule for_loop_rule[where I="\<lambda>_ _. True" and Q="\<lambda>_ _. False"])
         (simp_all add: unmap_shwr_def)
    then show ?thesis by (auto split: prod.splits sum.splits)
  qed
  then show ?thesis by (simp add: read_evt_end_def Let_def)
qed

lemma adc_normal_result:
  "fst (adc_normal env st) = Inr () \<or> fst (adc_normal env st) = Inl (Exit EXIT_SPIWRITE)"
  using adc_normal_effect[of env st] by (auto simp: call_effect_def)

lemma handler_quiet:
  assumes "h \<noteq> H_read_evt_end"
  shows "quiet st (snd (run_handler d env h st)) \<and>
         (fst (run_handler d env h st) = Inr () \<or>
          fst (run_handler d env h st) = Inl (Exit EXIT_SPIWRITE))"
proof (cases h)
  case H_read_evt_end
  then show ?thesis using assms by simp
next
  case H_restore_trigger
  then show ?thesis using quiet_restore_trigger[of st d] by (simp add: restore_trigger_def)
next
  case H_adc_normal
  then show ?thesis using quiet_adc_normal[of st env] adc_normal_result[of env st] by simp
qed

text \<open>
  The exit phase, entered with all regions mapped and a list of distinct handlers: the
  process ends with an exit status, nothing is mapped or registered any more, and the
  regions are unmapped exactly when \<^verbatim>\<open>read_evt_end\<close> is among the handlers.
\<close>

lemma exit_phase:
  assumes "all_mapped (gl st)" and "distinct hs"
    and "run_exit_funcs d env hs code st = (status, st')"
  shows "(\<exists>c. status = Exited c \<and> (c = code \<or> c = EXIT_SPIWRITE)) \<and>
         (\<exists>new. events st' = events st @ new \<and> mapped new = [] \<and> registered new = [] \<and>
            unmapped new = (if H_read_evt_end \<in> set hs then all_regions else []))"
  using assms
proof (induction hs arbitrary: code st)
  case Nil
  then show ?case by auto
next
  case (Cons h hs)
  show ?case
  proof (cases "h = H_read_evt_end")
    case True
    define s1 where "s1 = st\<lparr>events := events st @ unmap_events env (length (events st))\<rparr>"
    have r: "run_handler d env h st = (Inr (), s1)"
      using True read_evt_end_runs[OF Cons.prems(1), of env] by (simp add: s1_def)
    have g: "all_mapped (gl s1)" using Cons.prems(1) by (simp add: s1_def)
    have n: "H_read_evt_end \<notin> set hs" "distinct hs" using Cons.prems(2) True by simp_all
    have run: "run_exit_funcs d env hs code s1 = (status, st')" using Cons.prems(3) r by simp
    from Cons.IH[OF g n(2) run] n(1) obtain new where
      c: "\<exists>c. status = Exited c \<and> (c = code \<or> c = EXIT_SPIWRITE)"
      and e: "events st' = events s1 @ new" "mapped new = []" "registered new = []" "unmapped new = []"
      by auto
    have "events st' = events st @ (unmap_events env (length (events st)) @ new)"
      using e(1) by (simp add: s1_def)
    moreover have "mapped (unmap_events env (length (events st)) @ new) = []"
      "registered (unmap_events env (length (events st)) @ new) = []"
      "unmapped (unmap_events env (length (events st)) @ new) = all_regions"
      using e by simp_all
    ultimately show ?thesis using c True by (intro conjI exI[of _ "unmap_events env (length (events st)) @ new"]) simp_all
  next
    case False
    obtain r s1 where rh: "run_handler d env h st = (r, s1)" by (cases "run_handler d env h st")
    from handler_quiet[OF False, of st d env] rh
    have q: "quiet st s1" and rr: "r = Inr () \<or> r = Inl (Exit EXIT_SPIWRITE)" by simp_all
    have g: "all_mapped (gl s1)" using q Cons.prems(1) by (simp add: quiet_def all_mapped_def)
    have dh: "distinct hs" using Cons.prems(2) by simp
    obtain code1 where run: "run_exit_funcs d env hs code1 s1 = (status, st')"
      and c1: "code1 = code \<or> code1 = EXIT_SPIWRITE"
      using Cons.prems(3) rh rr by auto
    from q obtain n1 where n1: "events s1 = events st @ n1" "mapped n1 = []" "unmapped n1 = []"
      "registered n1 = []" unfolding quiet_def by blast
    from Cons.IH[OF g dh run] obtain new where
      c: "\<exists>c. status = Exited c \<and> (c = code1 \<or> c = EXIT_SPIWRITE)"
      and e: "events st' = events s1 @ new" "mapped new = []" "registered new = []"
        "unmapped new = (if H_read_evt_end \<in> set hs then all_regions else [])"
      by auto
    have "events st' = events st @ (n1 @ new)" using e(1) n1(1) by simp
    moreover have "mapped (n1 @ new) = []" "registered (n1 @ new) = []"
      "unmapped (n1 @ new) = (if H_read_evt_end \<in> set (h # hs) then all_regions else [])"
      using e n1 False by auto
    moreover have "\<exists>c. status = Exited c \<and> (c = code \<or> c = EXIT_SPIWRITE)"
      using c c1 by auto
    ultimately show ?thesis by blast
  qed
qed

lemma exit_phase_plain:
  assumes "fst (adc_normal env st) = Inr ()"
  shows "fst (run_exit_funcs d env [H_adc_normal, H_restore_trigger, H_read_evt_end] code st) =
           Exited code"
proof -
  obtain s1 where a: "adc_normal env st = (Inr (), s1)"
    using assms by (cases "adc_normal env st") auto
  obtain s2 where b: "restore_trigger d s1 = (Inr (), s2)"
    by (cases "restore_trigger d s1") (auto simp: restore_trigger_def split: if_splits)
  obtain s3 where c: "read_evt_end env s2 = (Inr (), s3)"
    using read_evt_end_returns[of env s2] by (cases "read_evt_end env s2") auto
  show ?thesis by (simp add: a b c)
qed

text \<open>What a run of the self-test tool leaves behind, by the way it ends.\<close>

lemma acr_process_outcome:
  assumes "acr_process d env fuel opts = Some (status, st)"
  shows "(\<forall>c. status = Exited c \<longrightarrow> H_read_evt_end \<in> set (registered (events st)) \<longrightarrow>
            mapped (events st) = all_regions \<and> unmapped (events st) = all_regions) \<and>
         (\<forall>r s. acr_main d env fuel opts acr_init = Some (Inr r, s) \<longrightarrow>
            r = evaluate_ramp (traces s) \<and>
            (\<exists>c. status = Exited c \<and> (c = r \<or> c = EXIT_SPIWRITE)) \<and>
            (fst (adc_normal env s) = Inr () \<longrightarrow> status = Exited r))"
proof -
  from assms obtain out s where m: "acr_main d env fuel opts acr_init = Some (out, s)"
    by (cases "acr_main d env fuel opts acr_init") (auto simp: acr_process_def)
  from acr_main_outcome[OF m] have mo: "main_outcome (out, s)" .
  have ex: "\<exists>c. status = Exited c \<and> (c = code \<or> c = EXIT_SPIWRITE) \<and>
              mapped (events st) = all_regions \<and> unmapped (events st) = all_regions"
    if rd: "ready hs s" and dh: "distinct hs" and hin: "H_read_evt_end \<in> set hs"
      and run: "run_exit_funcs d env hs code s = (status, st)" for hs code
  proof -
    have am: "all_mapped (gl s)" using rd by (simp add: ready_def)
    from exit_phase[OF am dh run] hin obtain new where
      "\<exists>c. status = Exited c \<and> (c = code \<or> c = EXIT_SPIWRITE)"
      "events st = events s @ new" "mapped new = []" "unmapped new = all_regions"
      by auto
    then show ?thesis using rd by (auto simp: ready_def)
  qed
  have un: "H_read_evt_end \<notin> set (registered (events st))"
    if u: "unregistered s" and run: "run_exit_funcs d env (exit_funcs s) code s = (status, st)" for code
  proof -
    have "exit_funcs s = []" using u by (simp add: unregistered_def)
    then have "st = s" using run by simp
    then show ?thesis using u by (simp add: unregistered_def)
  qed
  have one: "\<forall>c. status = Exited c \<longrightarrow> H_read_evt_end \<in> set (registered (events st)) \<longrightarrow>
            mapped (events st) = all_regions \<and> unmapped (events st) = all_regions"
  proof (intro allI impI)
    fix c assume st: "status = Exited c" and reg: "H_read_evt_end \<in> set (registered (events st))"
    show "mapped (events st) = all_regions \<and> unmapped (events st) = all_regions"
    proof (cases out)
      case (Inr r)
      then have run: "run_exit_funcs d env (exit_funcs s) r s = (status, st)"
        using assms m by (simp add: acr_process_def)
      from mo Inr have "ready [H_adc_normal, H_restore_trigger, H_read_evt_end] s \<or> unregistered s"
        by (auto simp: main_outcome_def)
      then show ?thesis
      proof
        assume rd: "ready [H_adc_normal, H_restore_trigger, H_read_evt_end] s"
        then have "exit_funcs s = [H_adc_normal, H_restore_trigger, H_read_evt_end]"
          by (simp add: ready_def)
        then show ?thesis using ex[OF rd, of r] run by auto
      next
        assume "unregistered s"
        then show ?thesis using un run reg by blast
      qed
    next
      case (Inl e)
      show ?thesis
      proof (cases e)
        case (Exit code)
        then have run: "run_exit_funcs d env (exit_funcs s) code s = (status, st)"
          using assms m Inl by (simp add: acr_process_def)
        from mo Inl Exit consider "unregistered s"
          | "ready [H_restore_trigger, H_read_evt_end] s"
          by (auto simp: main_outcome_def)
        then show ?thesis
        proof cases
          case 1
          then show ?thesis using un run reg by blast
        next
          case 2
          then have "exit_funcs s = [H_restore_trigger, H_read_evt_end]" by (simp add: ready_def)
          then show ?thesis using ex[OF 2, of code] run by auto
        qed
      next
        case Abort
        then show ?thesis using assms m Inl st by (simp add: acr_process_def)
      next
        case (Fault f)
        then show ?thesis using assms m Inl st by (simp add: acr_process_def)
      qed
    qed
  qed
  have two: "r = evaluate_ramp (traces s') \<and>
            (\<exists>c. status = Exited c \<and> (c = r \<or> c = EXIT_SPIWRITE)) \<and>
            (fst (adc_normal env s') = Inr () \<longrightarrow> status = Exited r)"
    if a: "acr_main d env fuel opts acr_init = Some (Inr r, s')" for r s'
  proof -
    have o: "out = Inr r" "s' = s" using m a by simp_all
    from mo o have rd: "ready [H_adc_normal, H_restore_trigger, H_read_evt_end] s"
      and rv: "r = evaluate_ramp (traces s)"
      by (auto simp: main_outcome_def)
    have hs: "exit_funcs s = [H_adc_normal, H_restore_trigger, H_read_evt_end]"
      using rd by (simp add: ready_def)
    have run: "run_exit_funcs d env [H_adc_normal, H_restore_trigger, H_read_evt_end] r s = (status, st)"
      using assms m o hs by (simp add: acr_process_def)
    have "\<exists>c. status = Exited c \<and> (c = r \<or> c = EXIT_SPIWRITE)"
      using ex[OF rd _ _ run] by auto
    moreover have "status = Exited r" if "fst (adc_normal env s) = Inr ()"
      using exit_phase_plain[OF that, of d r] run by simp
    ultimately show ?thesis using rv o by simp
  qed
  show ?thesis using one two by blast
qed

lemma convert_initial:
  "\<exists>out. convert_databuf (sh acr_init) (databuf acr_init) (traces acr_init) = Inr out"
proof -
  have "trace_shape (traces acr_init)"
    by (simp add: acr_init_def trace_shape_def SHWR_NCH_MAX_def SHWR_NSAMPLES_def list_all_iff)
  moreover have "length (databuf acr_init) = DATASIZE" by (simp add: acr_init_def)
  moreover have "unat (shwr_buf_start (sh acr_init)) < SHWR_NSAMPLES"
    by (simp add: acr_init_def SHWR_NSAMPLES_def)
  ultimately show ?thesis
    using convert_channels_spec[of "traces acr_init" "databuf acr_init"
        "unat (shwr_buf_start (sh acr_init))" 0]
    by (auto simp: convert_databuf_def)
qed

lemma acr_main_spi_env:
  "\<exists>st. acr_main test_defs spi_env (Suc (Suc 0)) [] acr_init =
          Some (Inr (evaluate_ramp (traces st)), st)"
proof -
  obtain out where c: "convert_databuf (sh acr_init) (databuf acr_init) (traces acr_init) = Inr out"
    using convert_initial by blast
  have c': "convert_databuf \<lparr>sh_id = 0, shwr_buf_status = 0, shwr_buf_start = 0, shwr_buf_trig_id = 0,
            ttag_shwr_seconds = 0, ttag_shwr_nanosec = 0, rd = 0\<rparr> (replicate DATASIZE 0)
            (replicate SHWR_NCH_MAX (replicate SHWR_NSAMPLES 0)) = Inr out"
    using c by (simp add: acr_init_def)
  show ?thesis
    by (simp add: acr_main_def align_problem_def open_adc_def openspidev_def spi_init_def
        ioctl_or_exit_def read_evt_init_with_def map_shwr_def mmap_or_exit_def call_or_exit_def
        atexit_def reg_read_def reg_write_def adc_settestmode_def adc_settestmode_body_def
        adc_write_def LED_trigger_def acr_read_evt_read_def for_loop_unroll SHWR_RAW_NCH_MAX_def
        syscall_def emit_def now_def Let_def spi_env_def test_env_def test_defs_def acr_init_def
        c' EXIT_OPENSPI_def)
qed

lemma spi_env_normal: "fst (adc_normal spi_env st) = Inr ()"
proof -
  have "call_effect spi_env st (fst (adc_normal spi_env st), snd (adc_normal spi_env st))"
    using adc_normal_effect[of spi_env st] by simp
  moreover have "\<forall>t fd bytes. fd \<noteq> failedadcfd st \<longrightarrow> sys_ret spi_env t (SysWrite fd bytes) = 3"
    by (simp add: spi_env_def test_env_def)
  ultimately show ?thesis by (rule ok_env_returns)
qed

subsection \<open>Unmap cleanup on the exit paths\<close>

lemma steady_refl [simp]: "steady st st"
  by (simp add: steady_def)

lemma steady_trans:
  assumes "steady a b" and "steady b c"
  shows "steady a c"
proof -
  from assms(1) obtain n1 where 1: "events b = events a @ n1" "mapped n1 = []" "unmapped n1 = []"
    unfolding steady_def by blast
  from assms(2) obtain n2 where 2: "events c = events b @ n2" "mapped n2 = []" "unmapped n2 = []"
    unfolding steady_def by blast
  have "events c = events a @ (n1 @ n2) \<and> mapped (n1 @ n2) = [] \<and> unmapped (n1 @ n2) = []"
    using 1 2 by simp
  then have "\<exists>new. events c = events a @ new \<and> mapped new = [] \<and> unmapped new = []" by blast
  then show ?thesis using assms unfolding steady_def by simp
qed

lemma steady_emit:
  "mapped_of e = [] \<Longrightarrow> unmapped_of e = [] \<Longrightarrow> steady st (emit e st)"
  by (simp add: steady_def)

lemma steady_syscall:
  "(\<And>r. c \<noteq> SysMmap r) \<Longrightarrow> (\<And>r. c \<noteq> SysMunmap r) \<Longrightarrow> steady st (snd (syscall env c st))"
  by (cases c) (auto simp: syscall_def Let_def intro!: steady_emit)

lemma steady_reg_read: "steady st (snd (reg_read env blk addr st))"
  by (simp add: reg_read_def Let_def steady_emit)

lemma steady_reg_write: "steady st (reg_write blk addr v st)"
  by (simp add: reg_write_def steady_emit)

lemma steady_wait:
  fixes st :: ns_proc
  shows "wait_trigger d env fuel sig st = Some (sig', st1) \<Longrightarrow> steady st st1"
proof (induction fuel arbitrary: sig st)
  case 0
  then show ?case by simp
next
  case (Suc fuel)
  obtain v sa where r: "reg_read env Regs (SHWR_BUF_STATUS_ADDR d) st = (v, sa)"
    by (cases "reg_read env Regs (SHWR_BUF_STATUS_ADDR d) st")
  have qa: "steady st sa" using steady_reg_read[of st env Regs "SHWR_BUF_STATUS_ADDR d"] r by simp
  show ?case
  proof (cases "v AND push_bit (SHWR_BUF_NFULL_SHIFT d) (SHWR_BUF_NFULL_MASK d) = 0 \<and> sig = SIG_WAKEUP d")
    case False
    then have "st1 = sa" using Suc.prems r by auto
    then show ?thesis using qa by simp
  next
    case True
    obtain s1 sb where c: "syscall env SysSigwaitinfo sa = (s1, sb)"
      by (cases "syscall env SysSigwaitinfo sa")
    have qb: "steady sa sb" using steady_syscall[of SysSigwaitinfo sa env] c by simp
    have "wait_trigger d env fuel s1 sb = Some (sig', st1)"
      using Suc.prems True r c by simp
    then have "steady sb st1" by (rule Suc.IH)
    then show ?thesis using qa qb steady_trans by blast
  qed
qed

lemma steady_loop:
  assumes body: "\<And>j s. j < n \<Longrightarrow> steady s (snd (body j s))"
  shows "steady st (snd (for_loop i n body st))"
proof (cases "i \<le> n")
  case True
  have "case for_loop i n body st of (Inr u, s') \<Rightarrow> steady st s' | (Inl e, s') \<Rightarrow> steady st s'"
  proof (rule for_loop_rule[where I = "\<lambda>j s. steady st s" and Q = "\<lambda>e s. steady st s"])
    show "steady st st" by simp
    show "i \<le> n" by (rule True)
  next
    fix j and s :: ns_proc assume "j < n" "steady st s"
    then have "steady st (snd (body j s))" using body steady_trans by blast
    then show "case body j s of (Inr u, s') \<Rightarrow> steady st s' | (Inl e, s') \<Rightarrow> steady st s'"
      by (auto split: prod.splits sum.splits)
  qed
  then show ?thesis by (auto split: prod.splits sum.splits)
next
  case False
  then show ?thesis by (simp add: for_loop_end)
qed

lemma steady_seq:
  assumes "steady st (snd m)" and "\<And>v s. steady s (snd (f v s))"
  shows "steady st (snd (seq m f))"
proof (cases m)
  case (Pair r s)
  then show ?thesis
    using assms steady_trans[of st s "snd (f _ s)"] by (cases r) auto
qed

lemma steady_copy_channel: "steady st (snd (copy_channel env ns_store offset i st))"
  by (simp add: copy_channel_def ns_store_def steady_def emit_def)

lemma steady_drain: "steady st (snd (drain d env ns_store st))"
proof -
  obtain v sa where r: "reg_read env Regs (SHWR_BUF_STATUS_ADDR d) st = (v, sa)"
    by (cases "reg_read env Regs (SHWR_BUF_STATUS_ADDR d) st")
  have qa: "steady st sa" using steady_reg_read[of st env Regs "SHWR_BUF_STATUS_ADDR d"] r by simp
  have "steady sa (snd (drain d env ns_store st))"
    unfolding drain_def r
    apply (simp add: Let_def)
    apply (rule steady_seq)
     apply (rule steady_loop)
     apply (rule steady_copy_channel)
    apply (simp add: reg_read_def reg_write_def emit_def Let_def steady_def)
    done
  then show ?thesis using qa steady_trans by blast
qed

lemma ns_read_steady:
  assumes "ns_read_evt_read d env fuel st = Some (r, st')"
  shows "steady st st'"
proof -
  from assms obtain sig st1 where w: "wait_trigger d env fuel (SIG_WAKEUP d) st = Some (sig, st1)"
    by (auto simp: ns_read_evt_read_def split: option.splits)
  have q1: "steady st st1" using w by (rule steady_wait)
  show ?thesis
  proof (cases "sig = SIG_WAKEUP d")
    case False
    then show ?thesis using assms w q1 by (auto simp: ns_read_evt_read_def)
  next
    case True
    obtain r2 st2 where dr: "drain d env ns_store st1 = (r2, st2)"
      by (cases "drain d env ns_store st1")
    have q2: "steady st1 st2" using steady_drain[of st1 d env] dr by simp
    have "st' = st2"
      using assms w True dr by (auto simp: ns_read_evt_read_def Let_def split: sum.splits)
    then show ?thesis using q1 q2 steady_trans by blast
  qed
qed

lemma steady_sendto: "steady st (snd (sendto_or_exit env packet st))"
  using steady_syscall[of "SysSendto packet" st env]
  by (auto simp: sendto_or_exit_def Let_def split: prod.splits)

lemma steady_send_frags: "steady st (snd (send_frags env ident start_p end_p st))"
proof (induction env ident start_p end_p st rule: send_frags.induct)
  case (1 env ident start_p end_p st)
  define end1 where "end1 = (if start_p + PACKETSIZE > WBUFSIZE then WBUFSIZE else start_p + PACKETSIZE)"
  define fh where "fh = \<lparr>fh_id = ident, fh_start = word_of_nat start_p,
                         fh_end = word_of_nat (end1 - FRAG_HEADER_SIZE)\<rparr>"
  define st1 where "st1 = st\<lparr>workbuf := store_bytes (workbuf st) start_p (frag_header_bytes fh)\<rparr>"
  show ?case
  proof (cases "end_p < WBUFSIZE \<and> start_p + FRAG_HEADER_SIZE \<le> length (workbuf st) \<and>
                end1 \<le> length (workbuf st)")
    case False
    then show ?thesis
      by (subst send_frags.simps) (auto simp: Let_def end1_def)
  next
    case True
    obtain r st2 where sd: "sendto_or_exit env (take (end1 - start_p) (drop start_p (workbuf st1))) st1 = (r, st2)"
      by (cases "sendto_or_exit env (take (end1 - start_p) (drop start_p (workbuf st1))) st1")
    have a: "steady st st1" by (simp add: st1_def steady_def)
    have b: "steady st1 st2"
      using steady_sendto[of st1 env "take (end1 - start_p) (drop start_p (workbuf st1))"] sd by simp
    have ab: "steady st st2" using a b by (rule steady_trans)
    show ?thesis
    proof (cases r)
      case (Inl e)
      then have "send_frags env ident start_p end_p st = (Inl e, st2)"
        using True sd unfolding st1_def fh_def end1_def
        by (subst send_frags.simps) (simp add: Let_def)
      then show ?thesis using ab by simp
    next
      case (Inr u)
      then have eq: "send_frags env ident start_p end_p st =
                 send_frags env ident (end1 - FRAG_HEADER_SIZE) end1 st2"
        using True sd unfolding st1_def fh_def end1_def
        by (subst send_frags.simps) (simp add: Let_def)
      have "steady st2 (snd (send_frags env ident (end1 - FRAG_HEADER_SIZE) end1 st2))"
        using "1.IH"[OF _ end1_def _ fh_def st1_def _ _ ] True sd Inr
        by (simp add: end1_def fh_def st1_def)
      then show ?thesis using ab eq steady_trans by simp
    qed
  qed
qed

lemma steady_senddata: "steady st (snd (senddata env st))"
proof -
  define s0 where "s0 = st\<lparr>sh := (sh st)\<lparr>sh_id := sh_id (sh st) OR 0x80000000\<rparr>\<rparr>"
  have a: "steady st s0" by (simp add: s0_def steady_def)
  have "steady s0 (snd (senddata env st))"
    unfolding senddata_def Let_def s0_def[symmetric]
    by (intro steady_seq steady_sendto steady_send_frags)
  then show ?thesis using a steady_trans by blast
qed

lemma ns_iteration_steady:
  assumes "ns_iteration d env fuel st = Some (r, st')"
  shows "steady st st'"
proof -
  from assms obtain r1 st1 where rd: "ns_read_evt_read d env fuel st = Some (r1, st1)"
    by (cases "ns_read_evt_read d env fuel st") (auto simp: ns_iteration_def)
  have q1: "steady st st1" using rd by (rule ns_read_steady)
  show ?thesis
  proof (cases r1)
    case (Inl e)
    then show ?thesis using assms rd q1 by (simp add: ns_iteration_def)
  next
    case (Inr ret)
    then have "st' = snd (senddata env st1)" using assms rd by (simp add: ns_iteration_def)
    then show ?thesis using q1 steady_senddata[of st1 env] steady_trans by blast
  qed
qed

lemma ns_loop_steady:
  "ns_loop d env fuel st = Some (r, st') \<Longrightarrow> steady st st'"
proof (induction fuel arbitrary: st)
  case 0
  then show ?case by simp
next
  case (Suc fuel)
  obtain msglen st1 where rc: "syscall env SysRecvfrom st = (msglen, st1)"
    by (cases "syscall env SysRecvfrom st")
  have q1: "steady st st1" using steady_syscall[of SysRecvfrom st env] rc by simp
  show ?case
  proof (cases "msglen \<le> 0")
    case False
    then have "st' = st1" using Suc.prems rc by simp
    then show ?thesis using q1 by simp
  next
    case True
    then obtain r2 st2 where it: "ns_iteration d env fuel st1 = Some (r2, st2)"
      using Suc.prems rc by (cases "ns_iteration d env fuel st1") auto
    have q2: "steady st1 st2" using it by (rule ns_iteration_steady)
    show ?thesis
    proof (cases r2)
      case (Inl e)
      then have "st' = st2" using Suc.prems rc True it by simp
      then show ?thesis using q1 q2 steady_trans by blast
    next
      case (Inr u)
      then have "ns_loop d env fuel st2 = Some (r, st')" using Suc.prems rc True it by simp
      then have "steady st2 st'" by (rule Suc.IH)
      then show ?thesis using q1 q2 steady_trans by blast
    qed
  qed
qed

lemma steady_socket: "steady st (snd (socket_or_exit env st))"
  using steady_syscall[of SysSocket st env]
  by (auto simp: socket_or_exit_def Let_def split: prod.splits)

lemma steady_opensock: "steady st (snd (opensock env st))"
proof -
  have "steady s (snd (let (r, st2) = syscall env SysInetAton s in
       if r = 0 then (Inl (Exit 1), st2) else (Inr sock, st2)))" for s :: ns_proc and sock :: int
    using steady_syscall[of SysInetAton s env] by (auto simp: Let_def split: prod.splits)
  then show ?thesis unfolding opensock_def by (intro steady_seq steady_socket)
qed

lemma steady_opencontrolsock: "steady st (snd (opencontrolsock env st))"
proof -
  have "steady s (snd (let (r, st2) = syscall env SysBind s in
       if r < 0 then (Inl (Exit 1), st2) else (Inr sock, st2)))" for s :: ns_proc and sock :: int
    using steady_syscall[of SysBind s env] by (auto simp: Let_def split: prod.splits)
  then show ?thesis unfolding opencontrolsock_def by (intro steady_seq steady_socket)
qed

lemma ns_mapped_steady: "ns_mapped st \<Longrightarrow> steady st st' \<Longrightarrow> ns_mapped st'"
  by (auto simp: ns_mapped_def steady_def all_mapped_def)

lemma ns_init_stage:
  assumes "steady ns_init st"
  shows "case read_evt_init_with ns_codes d env st of
           (Inr u, s) \<Rightarrow> ns_mapped s | (Inl e, s) \<Rightarrow> unmapped (events s) = []"
proof -
  have len: "length (shwr_pt (gl st)) = SHWR_RAW_NCH_MAX"
    and ev: "mapped (events st) = []" "unmapped (events st) = []"
    using assms by (auto simp: steady_def ns_init_def)
  obtain r s where res: "read_evt_init_with ns_codes d env st = (r, s)"
    by (cases "read_evt_init_with ns_codes d env st")
  note ir = init_result[OF len, where ec=ns_codes and d=d and env=env, unfolded res]
  show ?thesis
  proof (cases r)
    case (Inl e)
    then obtain new where "events s = events st @ new" "unmapped new = []"
      using ir by auto
    then show ?thesis using res Inl ev by simp
  next
    case (Inr u)
    then obtain new where "all_mapped (gl s)" "events s = events st @ new"
      "mapped new = all_regions" "unmapped new = []"
      using ir by auto
    then show ?thesis using res Inr ev by (simp add: ns_mapped_def)
  qed
qed

lemma ns_setup_result:
  "ns_setup_outcome
     (seq (opensock env ns_init) (\<lambda>datasock st.
        seq (opencontrolsock env st) (\<lambda>controlsock st.
        seq (read_evt_init_with ns_codes d env st) (\<lambda>_ st.
        let st = reg_write Regs (SHWR_BUF_TRIG_MASK_ADDR d) (COMPATIBILITY_SHWR_BUF_TRIG_EXT d) st;
            (f, st) = reg_read env TstctlRegs (USE_FAKE_ADDR d) st;
            st = reg_write TstctlRegs (USE_FAKE_ADDR d) (f OR push_bit (USE_FAKE_PPS_BIT d) 1) st
        in (Inr (datasock, controlsock), st)))))"
proof (rule seq_rule[where P = "\<lambda>v s. steady ns_init s"])
  show "case opensock env ns_init of (Inr v, s) \<Rightarrow> steady ns_init s
        | (Inl e, s) \<Rightarrow> ns_setup_outcome (Inl e, s)"
    using steady_opensock[of ns_init env]
    by (auto simp: ns_setup_outcome_def steady_def ns_init_def split: prod.splits sum.splits)
next
  fix datasock :: int and s :: ns_proc
  assume s: "steady ns_init s"
  show "ns_setup_outcome
          (seq (opencontrolsock env s) (\<lambda>controlsock st.
           seq (read_evt_init_with ns_codes d env st) (\<lambda>_ st.
           let st = reg_write Regs (SHWR_BUF_TRIG_MASK_ADDR d) (COMPATIBILITY_SHWR_BUF_TRIG_EXT d) st;
               (f, st) = reg_read env TstctlRegs (USE_FAKE_ADDR d) st;
               st = reg_write TstctlRegs (USE_FAKE_ADDR d) (f OR push_bit (USE_FAKE_PPS_BIT d) 1) st
           in (Inr (datasock, controlsock), st))))"
  proof (rule seq_rule[where P = "\<lambda>v s. steady ns_init s"])
    have "steady ns_init (snd (opencontrolsock env s))"
      using s steady_opencontrolsock[of s env] steady_trans by blast
    then show "case opencontrolsock env s of (Inr v, s) \<Rightarrow> steady ns_init s
          | (Inl e, s) \<Rightarrow> ns_setup_outcome (Inl e, s)"
      by (auto simp: ns_setup_outcome_def steady_def ns_init_def split: prod.splits sum.splits)
  next
    fix controlsock :: int and s2 :: ns_proc
    assume s2: "steady ns_init s2"
    show "ns_setup_outcome
           (seq (read_evt_init_with ns_codes d env s2) (\<lambda>_ st.
            let st = reg_write Regs (SHWR_BUF_TRIG_MASK_ADDR d) (COMPATIBILITY_SHWR_BUF_TRIG_EXT d) st;
                (f, st) = reg_read env TstctlRegs (USE_FAKE_ADDR d) st;
                st = reg_write TstctlRegs (USE_FAKE_ADDR d) (f OR push_bit (USE_FAKE_PPS_BIT d) 1) st
            in (Inr (datasock, controlsock), st)))"
    proof (rule seq_rule[where P = "\<lambda>v s. ns_mapped s"])
      show "case read_evt_init_with ns_codes d env s2 of (Inr v, s) \<Rightarrow> ns_mapped s
            | (Inl e, s) \<Rightarrow> ns_setup_outcome (Inl e, s)"
        using ns_init_stage[OF s2, of d env]
        by (auto simp: ns_setup_outcome_def split: prod.splits sum.splits)
    next
      fix v :: unit and s3 :: ns_proc
      assume m: "ns_mapped s3"
      define a where "a = reg_write Regs (SHWR_BUF_TRIG_MASK_ADDR d) (COMPATIBILITY_SHWR_BUF_TRIG_EXT d) s3"
      obtain f b where rr: "reg_read env TstctlRegs (USE_FAKE_ADDR d) a = (f, b)"
        by (cases "reg_read env TstctlRegs (USE_FAKE_ADDR d) a")
      define c where "c = reg_write TstctlRegs (USE_FAKE_ADDR d) (f OR push_bit (USE_FAKE_PPS_BIT d) 1) b"
      have "steady s3 a" unfolding a_def by (rule steady_reg_write)
      moreover have "steady a b" using steady_reg_read[of a env TstctlRegs "USE_FAKE_ADDR d"] rr by simp
      moreover have "steady b c" unfolding c_def by (rule steady_reg_write)
      ultimately have "steady s3 c" using steady_trans by blast
      then have "ns_mapped c" using m ns_mapped_steady by blast
      then show "ns_setup_outcome
            (let st = reg_write Regs (SHWR_BUF_TRIG_MASK_ADDR d) (COMPATIBILITY_SHWR_BUF_TRIG_EXT d) s3;
                 (f, st) = reg_read env TstctlRegs (USE_FAKE_ADDR d) st;
                 st = reg_write TstctlRegs (USE_FAKE_ADDR d) (f OR push_bit (USE_FAKE_PPS_BIT d) 1) st
             in (Inr (datasock, controlsock), st))"
        by (simp add: Let_def a_def[symmetric] rr c_def ns_setup_outcome_def)
    qed
  qed
qed

text \<open>What \<^verbatim>\<open>main\<close> of the streaming tool leaves behind, by the way it ends.\<close>

lemma ns_main_outcome:
  assumes "ns_main d env fuel ns_init = Some (out, st)"
  shows "(\<forall>e. out = Inl e \<longrightarrow> unmapped (events st) = []) \<and>
         (\<forall>r. out = Inr r \<longrightarrow> r = 0 \<and> mapped (events st) = all_regions \<and>
                 unmapped (events st) = all_regions)"
proof -
  define chain where "chain =
     seq (opensock env ns_init) (\<lambda>datasock st.
        seq (opencontrolsock env st) (\<lambda>controlsock st.
        seq (read_evt_init_with ns_codes d env st) (\<lambda>_ st.
        let st = reg_write Regs (SHWR_BUF_TRIG_MASK_ADDR d) (COMPATIBILITY_SHWR_BUF_TRIG_EXT d) st;
            (f, st) = reg_read env TstctlRegs (USE_FAKE_ADDR d) st;
            st = reg_write TstctlRegs (USE_FAKE_ADDR d) (f OR push_bit (USE_FAKE_PPS_BIT d) 1) st
        in (Inr (datasock, controlsock), st))))"
  obtain r s where c: "chain = (r, s)" by (cases chain)
  have so: "ns_setup_outcome (r, s)" using ns_setup_result[of env d] c by (simp add: chain_def)
  have m: "ns_main d env fuel ns_init =
     (case chain of
        (Inl e, st) \<Rightarrow> Some (Inl e, st)
      | (Inr (datasock, controlsock), st) \<Rightarrow>
          (case ns_loop d env fuel st of
             None \<Rightarrow> None
           | Some (Inl e, st) \<Rightarrow> Some (Inl e, st)
           | Some (Inr u, st) \<Rightarrow>
               (let st = snd (read_evt_end env st);
                    st = snd (syscall env (SysClose controlsock) st);
                    st = snd (syscall env (SysClose datasock) st)
                in Some (Inr 0, st))))"
    unfolding ns_main_def chain_def by simp
  show ?thesis
  proof (cases r)
    case (Inl e)
    then have "out = Inl e" "st = s" using assms m c by simp_all
    then show ?thesis using so Inl by (simp add: ns_setup_outcome_def)
  next
    case (Inr socks)
    obtain datasock controlsock where sk: "socks = (datasock, controlsock)" by (cases socks)
    have mp: "ns_mapped s" using so Inr by (simp add: ns_setup_outcome_def)
    from assms m c Inr sk obtain r2 s2 where lp: "ns_loop d env fuel s = Some (r2, s2)"
      by (cases "ns_loop d env fuel s") auto
    have mp2: "ns_mapped s2" using mp ns_loop_steady[OF lp] ns_mapped_steady by blast
    show ?thesis
    proof (cases r2)
      case (Inl e)
      then have "out = Inl e" "st = s2" using assms m c Inr sk lp by simp_all
      then show ?thesis using mp2 by (simp add: ns_mapped_def)
    next
      case r2: (Inr u)
      define a where "a = s2\<lparr>events := events s2 @ unmap_events env (length (events s2))\<rparr>"
      have re: "read_evt_end env s2 = (Inr (), a)"
        using read_evt_end_runs[of s2 env] mp2 by (simp add: ns_mapped_def a_def)
      define b where "b = snd (syscall env (SysClose controlsock) a)"
      define e where "e = snd (syscall env (SysClose datasock) b)"
      have o: "out = Inr 0" "st = e"
        using assms m c Inr sk lp r2 re by (simp_all add: Let_def b_def e_def)
      have "steady a b" unfolding b_def by (rule steady_syscall) simp_all
      moreover have "steady b e" unfolding e_def by (rule steady_syscall) simp_all
      ultimately have "steady a e" by (rule steady_trans)
      then obtain new where n: "events e = events a @ new" "mapped new = []" "unmapped new = []"
        unfolding steady_def by blast
      have "mapped (events e) = all_regions" "unmapped (events e) = all_regions"
        using n mp2 by (simp_all add: a_def ns_mapped_def)
      then show ?thesis using o by simp
    qed
  qed
qed

lemma ns_sendto_failure_run:
  "\<exists>st. ns_main test_defs (net_env 0) (Suc (Suc (Suc 0))) ns_init = Some (Inl (Exit 1), st) \<and>
        mapped (events st) = all_regions \<and> unmapped (events st) = []"
  by (simp add: ns_main_def opensock_def opencontrolsock_def socket_or_exit_def
      read_evt_init_with_def map_shwr_def mmap_or_exit_def call_or_exit_def
      reg_read_def reg_write_def ns_iteration_def ns_read_evt_read_def senddata_def
      sendto_or_exit_def shwr_header_bytes_def le32_def for_loop_unroll SHWR_RAW_NCH_MAX_def
      syscall_def emit_def now_def Let_def net_env_def test_env_def test_defs_def ns_init_def
      ns_codes_def all_regions_def upt_rec)

lemma ns_quit_run:
  "\<exists>st. ns_main test_defs (net_env 1) (Suc 0) ns_init = Some (Inr 0, st)"
  by (simp add: ns_main_def opensock_def opencontrolsock_def socket_or_exit_def
      read_evt_init_with_def map_shwr_def mmap_or_exit_def call_or_exit_def
      reg_read_def reg_write_def for_loop_unroll SHWR_RAW_NCH_MAX_def
      syscall_def emit_def now_def Let_def net_env_def test_env_def test_defs_def ns_init_def
      ns_codes_def)

lemma spi_env_process:
  "\<exists>c st. acr_process test_defs spi_env (Suc (Suc 0)) [] = Some (Exited c, st) \<and>
          H_read_evt_end \<in> set (registered (events st))"
proof -
  obtain s where m: "acr_main test_defs spi_env (Suc (Suc 0)) [] acr_init =
          Some (Inr (evaluate_ramp (traces s)), s)"
    using acr_main_spi_env by blast
  from acr_main_outcome[OF m]
  have rd: "ready [H_adc_normal, H_restore_trigger, H_read_evt_end] s"
    by (simp add: main_outcome_def)
  obtain status st where run: "run_exit_funcs test_defs spi_env
      [H_adc_normal, H_restore_trigger, H_read_evt_end] (evaluate_ramp (traces s)) s = (status, st)"
    by (cases "run_exit_funcs test_defs spi_env
      [H_adc_normal, H_restore_trigger, H_read_evt_end] (evaluate_ramp (traces s)) s")
  have p: "acr_process test_defs spi_env (Suc (Suc 0)) [] = Some (status, st)"
    using m rd run by (simp add: acr_process_def ready_def)
  have am: "all_mapped (gl s)" using rd by (simp add: ready_def)
  from exit_phase[OF am _ run] obtain c new where
    "status = Exited c" "events st = events s @ new" by auto
  then show ?thesis using p rd by (auto simp: ready_def)
qed

text \<open>
  Claim C8, amended. In the self-test tool the cleanup is the exit handler
  \<^verbatim>\<open>read_evt_end\<close>: on every run that ends with an exit status after the handler has
  been registered, whether \<^verbatim>\<open>main\<close> returned or \<^verbatim>\<open>exit\<close> was called with an error
  code, every region has been mapped and every region is unmapped. The streaming tool
  registers no handler: the regions are unmapped when its \<^verbatim>\<open>main\<close> returns, and an
  \<^verbatim>\<open>exit\<close> with an error code unmaps nothing.
\<close>

theorem unmap_cleanup_where_installed:
  "(\<forall>c st. acr_process d env fuel opts = Some (Exited c, st) \<longrightarrow>
      H_read_evt_end \<in> set (registered (events st)) \<longrightarrow>
      mapped (events st) = all_regions \<and> unmapped (events st) = all_regions) \<and>
   (\<forall>r st. ns_main d env fuel ns_init = Some (Inr r, st) \<longrightarrow>
      r = 0 \<and> mapped (events st) = all_regions \<and> unmapped (events st) = all_regions) \<and>
   (\<forall>e st. ns_main d env fuel ns_init = Some (Inl e, st) \<longrightarrow> unmapped (events st) = [])"
proof (intro conjI allI impI)
  fix c st
  assume "acr_process d env fuel opts = Some (Exited c, st)"
    and "H_read_evt_end \<in> set (registered (events st))"
  then show "mapped (events st) = all_regions" "unmapped (events st) = all_regions"
    using acr_process_outcome[of d env fuel opts "Exited c" st] by blast+
next
  fix r and st :: ns_proc
  assume "ns_main d env fuel ns_init = Some (Inr r, st)"
  then show "r = 0" "mapped (events st) = all_regions" "unmapped (events st) = all_regions"
    using ns_main_outcome[of d env fuel "Inr r" st] by simp_all
next
  fix e and st :: ns_proc
  assume "ns_main d env fuel ns_init = Some (Inl e, st)"
  then show "unmapped (events st) = []"
    using ns_main_outcome[of d env fuel "Inl e" st] by simp
qed

text \<open>
  Claim C8 as stated fails: in the streaming tool, a \<^verbatim>\<open>sendto\<close> of the event header
  that sends nothing ends the process with \<open>exit(1)\<close> after all eight regions have been
  mapped, and none of them is unmapped.
\<close>

theorem streaming_exit_skips_unmap:
  "map_option (\<lambda>(status, st). (status, mapped (events st), unmapped (events st)))
     (ns_process test_defs (net_env 0) (Suc (Suc (Suc 0)))) =
   Some (Exited 1, all_regions, [])"
proof -
  obtain st where "ns_main test_defs (net_env 0) (Suc (Suc (Suc 0))) ns_init = Some (Inl (Exit 1), st)"
    "mapped (events st) = all_regions" "unmapped (events st) = []"
    using ns_sendto_failure_run by blast
  then show ?thesis by (simp add: ns_process_def)
qed

theorem unmap_cleanup_where_installed_witness:
  "(\<exists>c st. acr_process test_defs spi_env (Suc (Suc 0)) [] = Some (Exited c, st) \<and>
      H_read_evt_end \<in> set (registered (events st)) \<and>
      mapped (events st) = all_regions \<and> unmapped (events st) = all_regions) \<and>
   (\<exists>st. ns_main test_defs (net_env 1) (Suc 0) ns_init = Some (Inr 0, st) \<and>
      mapped (events st) = all_regions \<and> unmapped (events st) = all_regions) \<and>
   (\<exists>st. ns_main test_defs (net_env 0) (Suc (Suc (Suc 0))) ns_init = Some (Inl (Exit 1), st) \<and>
      unmapped (events st) = [])"
proof -
  obtain c st where p: "acr_process test_defs spi_env (Suc (Suc 0)) [] = Some (Exited c, st)"
    "H_read_evt_end \<in> set (registered (events st))"
    using spi_env_process by blast
  have a: "mapped (events st) = all_regions \<and> unmapped (events st) = all_regions"
    using unmap_cleanup_where_installed[of test_defs spi_env "Suc (Suc 0)" "[]"] p by blast
  obtain s1 where q: "ns_main test_defs (net_env 1) (Suc 0) ns_init = Some (Inr 0, s1)"
    using ns_quit_run by blast
  have b: "mapped (events s1) = all_regions \<and> unmapped (events s1) = all_regions"
    using unmap_cleanup_where_installed[of test_defs "net_env 1" "Suc 0"] q by blast
  obtain s2 where f: "ns_main test_defs (net_env 0) (Suc (Suc (Suc 0))) ns_init = Some (Inl (Exit 1), s2)"
    using ns_sendto_failure_run by blast
  have e: "unmapped (events s2) = []"
    using unmap_cleanup_where_installed[of test_defs "net_env 0" "Suc (Suc (Suc 0))"] f by blast
  show ?thesis using p a q b f e by blast
qed

subsection \<open>Self-test tool: the exit status\<close>

lemma exit_phase_failed:
  assumes "fst (adc_normal env st) = Inl (Exit EXIT_SPIWRITE)"
  shows "fst (run_exit_funcs d env [H_adc_normal, H_restore_trigger, H_read_evt_end] code st) =
           Exited EXIT_SPIWRITE"
proof -
  obtain s1 where a: "adc_normal env st = (Inl (Exit EXIT_SPIWRITE), s1)"
    using assms by (cases "adc_normal env st") auto
  obtain s2 where b: "restore_trigger d s1 = (Inr (), s2)"
    by (cases "restore_trigger d s1") (auto simp: restore_trigger_def split: if_splits)
  obtain s3 where c: "read_evt_end env s2 = (Inr (), s3)"
    using read_evt_end_returns[of env s2] by (cases "read_evt_end env s2") auto
  show ?thesis by (simp add: a b c)
qed

lemma evaluate_zero_buffer:
  assumes "convert_databuf (sh acr_init) (databuf acr_init) (traces acr_init) = Inr out"
  shows "evaluate_ramp out = 31"
proof -
  have ts: "trace_shape (traces acr_init)"
    by (simp add: acr_init_def trace_shape_def SHWR_NCH_MAX_def SHWR_NSAMPLES_def list_all_iff)
  have ln: "length (databuf acr_init) = DATASIZE" by (simp add: acr_init_def)
  have st: "unat (shwr_buf_start (sh acr_init)) < SHWR_NSAMPLES"
    by (simp add: acr_init_def SHWR_NSAMPLES_def)
  from convert_channels_spec[OF ts ln st, of 0] assms
  have vals: "\<And>c j. c < SHWR_RAW_NCH_MAX \<Longrightarrow> j < SHWR_NSAMPLES \<Longrightarrow>
      out ! (2 * c) ! j =
        lo12 (databuf acr_init ! (c * SHWR_NSAMPLES + (unat (shwr_buf_start (sh acr_init)) + j) mod SHWR_NSAMPLES))"
    by (auto simp: convert_databuf_def)
  have zero: "out ! (2 * c) ! j = 0" if "c < SHWR_RAW_NCH_MAX" "j < SHWR_NSAMPLES" for c j
  proof -
    have "c * SHWR_NSAMPLES + j mod SHWR_NSAMPLES < DATASIZE"
      using that by (simp add: DATASIZE_def SHWR_NSAMPLES_def SHWR_RAW_NCH_MAX_def)
    then show ?thesis using vals[OF that] by (simp add: acr_init_def lo12_def)
  qed
  have fails: "channel_fails out c" if "c < SHWR_RAW_NCH_MAX" for c
  proof -
    have "out ! (2 * c) ! 1 = 0" "out ! (2 * c) ! 0 = 0"
      using zero[OF that] by (simp_all add: SHWR_NSAMPLES_def)
    then have "ramp_mismatch out c (uint (out ! (2 * c) ! 0)) 1"
      by (simp add: ramp_mismatch_def SHWR_MAX_VAL_def)
    then show ?thesis unfolding channel_fails_def by (intro exI[of _ 1]) (simp add: SHWR_NSAMPLES_def)
  qed
  have step: "ramp_channels out ch result =
      (if ch < 5 then ramp_channels out (Suc ch)
                        (if channel_fails out ch then result OR push_bit ch 1 else result)
       else result)" for ch result
    by (subst ramp_channels.simps) (simp add: ramp_step SHWR_RAW_NCH_MAX_def)
  show ?thesis
    unfolding evaluate_ramp_def
    apply (subst step, simp add: fails SHWR_RAW_NCH_MAX_def)+
    done
qed

lemma acr_main_late_env:
  "\<exists>st. acr_main test_defs late_env (Suc (Suc 0)) [] acr_init = Some (Inr 31, st) \<and>
        adcfd st = [3, 4, 5, 6, 7] \<and> failedadcfd st = - 1"
proof -
  obtain out where c: "convert_databuf (sh acr_init) (databuf acr_init) (traces acr_init) = Inr out"
    using convert_initial by blast
  have e: "evaluate_ramp out = 31" using c by (rule evaluate_zero_buffer)
  have c': "convert_databuf \<lparr>sh_id = 0, shwr_buf_status = 0, shwr_buf_start = 0, shwr_buf_trig_id = 0,
            ttag_shwr_seconds = 0, ttag_shwr_nanosec = 0, rd = 0\<rparr> (replicate DATASIZE 0)
            (replicate SHWR_NCH_MAX (replicate SHWR_NSAMPLES 0)) = Inr out"
    using c by (simp add: acr_init_def)
  have r5: "replicate 5 (- 1 :: int) = [- 1, - 1, - 1, - 1, - 1]"
    by (simp add: eval_nat_numeral)
  show ?thesis
    by (simp add: r5 acr_main_def align_problem_def open_adc_def openspidev_def spi_init_def
        ioctl_or_exit_def read_evt_init_with_def map_shwr_def mmap_or_exit_def call_or_exit_def
        atexit_def reg_read_def reg_write_def adc_settestmode_def adc_settestmode_body_def
        adc_write_def LED_trigger_def acr_read_evt_read_def for_loop_unroll SHWR_RAW_NCH_MAX_def
        syscall_def emit_def now_def Let_def late_env_def test_env_def test_defs_def acr_init_def
        c' e EXIT_OPENSPI_def cmdstr_def ADDR_TEST_def ADDR_CHS_def RAMPON_def RAMPOFF_def MASK_CHS_def)
qed

lemma late_env_normal:
  assumes "adcfd st = [3, 4, 5, 6, 7]" "failedadcfd st = - 1"
  shows "fst (adc_normal late_env st) = Inl (Exit EXIT_SPIWRITE)"
  using assms
  by (simp add: adc_normal_def adc_settestmode_def adc_settestmode_body_def adc_write_def
      for_loop_unroll SHWR_RAW_NCH_MAX_def syscall_def emit_def now_def Let_def late_env_def
      test_env_def cmdstr_def ADDR_TEST_def ADDR_CHS_def RAMPOFF_def MASK_CHS_def)

text \<open>
  Claim C2, amended. For every trace, \<^verbatim>\<open>evaluate_ramp\<close> returns a value from 0 to 31
  whose bit \<open>c\<close>, for each of the five raw channels, is set exactly when some sample index
  \<open>i\<close> below 2048 has \<open>trace[2c][i] \<noteq> trace[2c+1][i]\<close> or
  \<open>(trace[2c][i] + i) mod 4096 \<noteq> trace[2c][0]\<close>. Whenever \<^verbatim>\<open>main\<close> of the self-test
  tool returns, the value it returns is \<^verbatim>\<open>evaluate_ramp\<close> of the converted traces. The
  process then ends with that value as its exit status if the exit handler
  \<^verbatim>\<open>adc_normal\<close> returns, and with \<open>EXIT_SPIWRITE\<close> (39) if an SPI write fails in that
  handler.
\<close>

theorem evaluate_ramp_bitmask:
  "0 \<le> evaluate_ramp trace \<and> evaluate_ramp trace \<le> 31 \<and>
   (\<forall>c<SHWR_RAW_NCH_MAX.
      bit (evaluate_ramp trace) c \<longleftrightarrow>
        (\<exists>i<SHWR_NSAMPLES.
           trace ! (2 * c) ! i \<noteq> trace ! (2 * c + 1) ! i \<or>
           (uint (trace ! (2 * c) ! i) + int i) mod 4096 \<noteq> uint (trace ! (2 * c) ! 0))) \<and>
   (\<forall>r st. acr_main d env fuel opts acr_init = Some (Inr r, st) \<longrightarrow>
      r = evaluate_ramp (traces st) \<and>
      (\<exists>st'. acr_process d env fuel opts =
         Some (Exited (if fst (adc_normal env st) = Inr () then r else EXIT_SPIWRITE), st')))"
proof -
  have range: "0 \<le> evaluate_ramp trace \<and> evaluate_ramp trace \<le> 31"
    using ramp_channels_range[of 0 trace 0] by (simp add: evaluate_ramp_def)
  have bits: "bit (evaluate_ramp trace) c \<longleftrightarrow>
        (\<exists>i<SHWR_NSAMPLES.
           trace ! (2 * c) ! i \<noteq> trace ! (2 * c + 1) ! i \<or>
           (uint (trace ! (2 * c) ! i) + int i) mod 4096 \<noteq> uint (trace ! (2 * c) ! 0))"
    if "c < SHWR_RAW_NCH_MAX" for c
    using that ramp_channels_bits[of trace 0 0 c]
    by (simp add: evaluate_ramp_def channel_fails_def ramp_mismatch_def SHWR_MAX_VAL_def)
  have main: "r = evaluate_ramp (traces st) \<and>
      (\<exists>st'. acr_process d env fuel opts =
         Some (Exited (if fst (adc_normal env st) = Inr () then r else EXIT_SPIWRITE), st'))"
    if m: "acr_main d env fuel opts acr_init = Some (Inr r, st)" for r st
  proof -
    from acr_main_outcome[OF m]
    have rd: "ready [H_adc_normal, H_restore_trigger, H_read_evt_end] st"
      and rv: "r = evaluate_ramp (traces st)"
      by (auto simp: main_outcome_def)
    have p: "acr_process d env fuel opts =
        Some (run_exit_funcs d env [H_adc_normal, H_restore_trigger, H_read_evt_end] r st)"
      using m rd by (simp add: acr_process_def ready_def)
    have "fst (run_exit_funcs d env [H_adc_normal, H_restore_trigger, H_read_evt_end] r st) =
          Exited (if fst (adc_normal env st) = Inr () then r else EXIT_SPIWRITE)"
      using adc_normal_result[of env st] exit_phase_plain[of env st d r]
        exit_phase_failed[of env st d r] by auto
    then show ?thesis using p rv
      by (cases "run_exit_funcs d env [H_adc_normal, H_restore_trigger, H_read_evt_end] r st") auto
  qed
  show ?thesis using range bits main by blast
qed

text \<open>
  Claim C2 as stated fails: when the devices open as descriptors 3 to 7 and the write
  that switches the ramp of descriptor 5 off does not complete, \<^verbatim>\<open>main\<close> returns the
  bitmask 31 and the process ends with exit status 39.
\<close>

theorem exit_handler_replaces_status:
  "map_option fst (acr_main test_defs late_env (Suc (Suc 0)) [] acr_init) = Some (Inr 31) \<and>
   map_option fst (acr_process test_defs late_env (Suc (Suc 0)) []) = Some (Exited 39)"
proof -
  obtain st where m: "acr_main test_defs late_env (Suc (Suc 0)) [] acr_init = Some (Inr 31, st)"
    and fd: "adcfd st = [3, 4, 5, 6, 7]" "failedadcfd st = - 1"
    using acr_main_late_env by blast
  from acr_main_outcome[OF m]
  have rd: "ready [H_adc_normal, H_restore_trigger, H_read_evt_end] st"
    by (auto simp: main_outcome_def)
  have p: "acr_process test_defs late_env (Suc (Suc 0)) [] =
      Some (run_exit_funcs test_defs late_env [H_adc_normal, H_restore_trigger, H_read_evt_end] 31 st)"
    using m rd by (simp add: acr_process_def ready_def)
  have "fst (run_exit_funcs test_defs late_env [H_adc_normal, H_restore_trigger, H_read_evt_end] 31 st) =
        Exited EXIT_SPIWRITE"
    using late_env_normal[OF fd] by (rule exit_phase_failed)
  then show ?thesis using m p by (simp add: EXIT_SPIWRITE_def)
qed

theorem evaluate_ramp_bitmask_witness:
  "bit (evaluate_ramp ((replicate 10 (replicate 2048 0))[1 := replicate 2048 1])) 0 \<and>
   \<not> bit (evaluate_ramp ((replicate 10 (replicate 2048 0))[1 := replicate 2048 1])) 5 \<and>
   (\<exists>st st'. acr_main test_defs spi_env (Suc (Suc 0)) [] acr_init =
               Some (Inr (evaluate_ramp (traces st)), st) \<and>
             acr_process test_defs spi_env (Suc (Suc 0)) [] =
               Some (Exited (evaluate_ramp (traces st)), st')) \<and>
   (\<exists>st st'. acr_main test_defs late_env (Suc (Suc 0)) [] acr_init = Some (Inr 31, st) \<and>
             evaluate_ramp (traces st) = 31 \<and>
             acr_process test_defs late_env (Suc (Suc 0)) [] = Some (Exited EXIT_SPIWRITE, st'))"
proof -
  define tr :: "u16 list list" where "tr = (replicate 10 (replicate 2048 0))[1 := replicate 2048 1]"
  note fact = evaluate_ramp_bitmask[of tr test_defs spi_env "Suc (Suc 0)" "[]"]
  have c0: "(0::nat) < SHWR_RAW_NCH_MAX" by (simp add: SHWR_RAW_NCH_MAX_def)
  have "tr ! (2 * 0) ! 0 \<noteq> tr ! (2 * 0 + 1) ! 0" by (simp add: tr_def)
  moreover have "(0::nat) < SHWR_NSAMPLES" by (simp add: SHWR_NSAMPLES_def)
  ultimately have "\<exists>i<SHWR_NSAMPLES. tr ! (2 * 0) ! i \<noteq> tr ! (2 * 0 + 1) ! i \<or>
           (uint (tr ! (2 * 0) ! i) + int i) mod 4096 \<noteq> uint (tr ! (2 * 0) ! 0)" by blast
  then have b0: "bit (evaluate_ramp tr) 0" using fact c0 by blast
  have "evaluate_ramp tr < 2 ^ 5" using fact by simp
  moreover have "0 \<le> evaluate_ramp tr" using fact by simp
  ultimately have b5: "\<not> bit (evaluate_ramp tr) 5"
    by (simp add: bit_iff_odd)
  obtain st where m: "acr_main test_defs spi_env (Suc (Suc 0)) [] acr_init =
          Some (Inr (evaluate_ramp (traces st)), st)"
    using acr_main_spi_env by blast
  from fact have "\<forall>r st. acr_main test_defs spi_env (Suc (Suc 0)) [] acr_init = Some (Inr r, st) \<longrightarrow>
      r = evaluate_ramp (traces st) \<and>
      (\<exists>st'. acr_process test_defs spi_env (Suc (Suc 0)) [] =
         Some (Exited (if fst (adc_normal spi_env st) = Inr () then r else EXIT_SPIWRITE), st'))"
    by (elim conjE)
  from this[rule_format, OF m] spi_env_normal[of st]
  obtain st' where p: "acr_process test_defs spi_env (Suc (Suc 0)) [] =
               Some (Exited (evaluate_ramp (traces st)), st')" by auto
  obtain s where m2: "acr_main test_defs late_env (Suc (Suc 0)) [] acr_init = Some (Inr 31, s)"
    and fd: "adcfd s = [3, 4, 5, 6, 7]" "failedadcfd s = - 1"
    using acr_main_late_env by blast
  from evaluate_ramp_bitmask[of tr test_defs late_env "Suc (Suc 0)" "[]"]
  have "\<forall>r st. acr_main test_defs late_env (Suc (Suc 0)) [] acr_init = Some (Inr r, st) \<longrightarrow>
      r = evaluate_ramp (traces st) \<and>
      (\<exists>st'. acr_process test_defs late_env (Suc (Suc 0)) [] =
         Some (Exited (if fst (adc_normal late_env st) = Inr () then r else EXIT_SPIWRITE), st'))"
    by (elim conjE)
  from this[rule_format, OF m2] late_env_normal[OF fd]
  obtain s' where p2: "evaluate_ramp (traces s) = 31"
    "acr_process test_defs late_env (Suc (Suc 0)) [] = Some (Exited EXIT_SPIWRITE, s')" by auto
  show ?thesis using b0 b5 m p m2 p2 unfolding tr_def by blast
qed

subsection \<open>Event reader: order of the steps and content of the staging buffer\<close>

lemma length_slot_words [simp]: "length (slot_words env t offset i) = SHWR_NSAMPLES"
  by (simp add: slot_words_def)

lemma length_slot_prefix:
  "length (concat (map (slot_words env t offset) [0..<j])) = j * SHWR_NSAMPLES"
  by (induction j) simp_all

lemma length_le32 [simp]: "length (le32 w) = 4"
  by (simp add: le32_def)

lemma length_concat_le32: "length (concat (map le32 ws)) = 4 * length ws"
  by (induction ws) simp_all

lemma copy_loop_data_acr:
  fixes st :: acr_proc
  assumes "for_loop 0 SHWR_RAW_NCH_MAX (copy_channel env acr_store offset) st = (Inr u, st')"
  shows "databuf st' = slot_samples env (now st) offset @ drop DATASIZE (databuf st)"
proof -
  define W where "W = slot_words env (now st) offset"
  define I where "I = (\<lambda>j (s :: acr_proc).
      now s = now st + j \<and>
      databuf s = concat (map W [0..<j]) @ drop (j * SHWR_NSAMPLES) (databuf st))"
  have "case for_loop 0 SHWR_RAW_NCH_MAX (copy_channel env acr_store offset) st of
          (Inr u, s') \<Rightarrow> I SHWR_RAW_NCH_MAX s' | (Inl e, s') \<Rightarrow> True"
  proof (rule for_loop_rule[where I = I and Q = "\<lambda>e s. True"])
    show "I 0 st" by (simp add: I_def)
    show "0 \<le> SHWR_RAW_NCH_MAX" by simp
  next
    fix j and s :: acr_proc
    assume j: "j < SHWR_RAW_NCH_MAX" and inv: "I j s"
    have l: "length (concat (map W [0..<j])) = j * SHWR_NSAMPLES"
      unfolding W_def by (rule length_slot_prefix)
    have w: "map (hw_shwr env (now s) j) [offset..<offset + SHWR_NSAMPLES] = W j"
      using inv by (simp add: I_def W_def slot_words_def)
    have "I (j + 1) (acr_store j (W j) (emit (Memcpy j offset) s))"
      using inv l by (simp add: I_def acr_store_def emit_def now_def W_def add.commute)
    then show "case copy_channel env acr_store offset j s of
                 (Inr u, s') \<Rightarrow> I (j + 1) s' | (Inl e, s') \<Rightarrow> True"
      by (simp add: copy_channel_def w)
  qed
  then have "I SHWR_RAW_NCH_MAX st'" using assms by simp
  then show ?thesis by (simp add: I_def W_def slot_samples_def DATASIZE_def mult.commute)
qed

lemma copy_loop_data_ns:
  fixes st :: ns_proc
  assumes "for_loop 0 SHWR_RAW_NCH_MAX (copy_channel env ns_store offset) st = (Inr u, st')"
    and len: "length (workbuf st) = WBUFSIZE"
  shows "workbuf st' = take FRAG_HEADER_SIZE (workbuf st) @
                       concat (map le32 (slot_samples env (now st) offset))"
proof -
  define W where "W = slot_words env (now st) offset"
  define B where "B = (\<lambda>j. concat (map le32 (concat (map W [0..<j]))))"
  define I where "I = (\<lambda>j (s :: ns_proc).
      now s = now st + j \<and>
      workbuf s = take FRAG_HEADER_SIZE (workbuf st) @ B j @
                  drop (FRAG_HEADER_SIZE + 4 * (j * SHWR_NSAMPLES)) (workbuf st))"
  have lB: "length (B j) = 4 * (j * SHWR_NSAMPLES)" for j
    unfolding B_def W_def by (simp add: length_concat_le32 length_slot_prefix)
  have lH: "length (take FRAG_HEADER_SIZE (workbuf st)) = FRAG_HEADER_SIZE"
    using len by (simp add: WBUFSIZE_def)
  have "case for_loop 0 SHWR_RAW_NCH_MAX (copy_channel env ns_store offset) st of
          (Inr u, s') \<Rightarrow> I SHWR_RAW_NCH_MAX s' | (Inl e, s') \<Rightarrow> True"
  proof (rule for_loop_rule[where I = I and Q = "\<lambda>e s. True"])
    show "I 0 st" by (simp add: I_def B_def)
    show "0 \<le> SHWR_RAW_NCH_MAX" by simp
  next
    fix j and s :: ns_proc
    assume j: "j < SHWR_RAW_NCH_MAX" and inv: "I j s"
    define H where "H = take FRAG_HEADER_SIZE (workbuf st)"
    define D where "D = drop (FRAG_HEADER_SIZE + 4 * (j * SHWR_NSAMPLES)) (workbuf st)"
    have wb: "workbuf s = H @ B j @ D" and nw: "now s = now st + j"
      using inv by (simp_all add: I_def H_def D_def)
    have w: "map (hw_shwr env (now s) j) [offset..<offset + SHWR_NSAMPLES] = W j"
      using nw by (simp add: W_def slot_words_def)
    have lW: "length (concat (map le32 (W j))) = 4 * SHWR_NSAMPLES"
      by (simp add: length_concat_le32 W_def)
    have off: "FRAG_HEADER_SIZE + 4 * (j * SHWR_NSAMPLES) = length (H @ B j)"
      using lB lH by (simp add: H_def)
    have "store_bytes (H @ B j @ D) (FRAG_HEADER_SIZE + 4 * (j * SHWR_NSAMPLES))
            (concat (map le32 (W j))) =
          H @ B j @ concat (map le32 (W j)) @ drop (4 * SHWR_NSAMPLES) D"
      unfolding store_bytes_def off lW by simp
    moreover have "B j @ concat (map le32 (W j)) = B (j + 1)"
      by (simp add: B_def)
    moreover have "drop (4 * SHWR_NSAMPLES) D =
                   drop (FRAG_HEADER_SIZE + 4 * ((j + 1) * SHWR_NSAMPLES)) (workbuf st)"
      by (simp add: D_def add.commute add.left_commute)
    ultimately have "workbuf (ns_store j (W j) (emit (Memcpy j offset) s)) =
        H @ B (j + 1) @ drop (FRAG_HEADER_SIZE + 4 * ((j + 1) * SHWR_NSAMPLES)) (workbuf st)"
      using wb by (simp add: ns_store_def emit_def)
    then have "I (j + 1) (ns_store j (W j) (emit (Memcpy j offset) s))"
      using nw by (simp add: I_def H_def ns_store_def emit_def now_def)
    then show "case copy_channel env ns_store offset j s of
                 (Inr u, s') \<Rightarrow> I (j + 1) s' | (Inl e, s') \<Rightarrow> True"
      by (simp add: copy_channel_def w)
  qed
  then have "I SHWR_RAW_NCH_MAX st'" using assms by simp
  moreover have "drop (FRAG_HEADER_SIZE + 4 * (SHWR_RAW_NCH_MAX * SHWR_NSAMPLES)) (workbuf st) = []"
    using len by (simp add: WBUFSIZE_def NS_DATASIZE_def mult.commute)
  ultimately show ?thesis by (simp add: I_def B_def W_def slot_samples_def)
qed

lemma drain_staging:
  fixes st :: "'a proc_scheme"
  assumes "drain d env store st = (Inr u, st')"
  shows "\<exists>sl. for_loop 0 SHWR_RAW_NCH_MAX
               (copy_channel env store
                  (unat (slot_of d (hw_reg env (now st) Regs (SHWR_BUF_STATUS_ADDR d))) * SHWR_NSAMPLES))
               (emit (RegRead Regs (SHWR_BUF_STATUS_ADDR d)
                        (hw_reg env (now st) Regs (SHWR_BUF_STATUS_ADDR d))) st) = (Inr (), sl) \<and>
             st' = sl\<lparr>events := events st', gl := gl st', sh := sh st'\<rparr>"
  using assms
  by (auto simp: drain_def reg_read_def reg_write_def emit_def Let_def slot_of_def seq_def
      split: prod.splits sum.splits)

lemma drain_data_acr:
  fixes st :: acr_proc
  assumes "drain d env acr_store st = (Inr u, st')"
  shows "take DATASIZE (databuf st') =
           slot_samples env (now st + 1)
             (unat (slot_of d (hw_reg env (now st) Regs (SHWR_BUF_STATUS_ADDR d))) * SHWR_NSAMPLES)"
proof -
  define offset where
    "offset = unat (slot_of d (hw_reg env (now st) Regs (SHWR_BUF_STATUS_ADDR d))) * SHWR_NSAMPLES"
  define s0 where "s0 = emit (RegRead Regs (SHWR_BUF_STATUS_ADDR d)
                        (hw_reg env (now st) Regs (SHWR_BUF_STATUS_ADDR d))) st"
  from drain_staging[OF assms] obtain sl where
    lp: "for_loop 0 SHWR_RAW_NCH_MAX (copy_channel env acr_store offset) s0 = (Inr (), sl)"
    and fr: "st' = sl\<lparr>events := events st', gl := gl st', sh := sh st'\<rparr>"
    unfolding offset_def s0_def by blast
  have "databuf st' = databuf sl" by (subst fr) simp
  also have "\<dots> = slot_samples env (now s0) offset @ drop DATASIZE (databuf s0)"
    using lp by (rule copy_loop_data_acr)
  finally have d: "databuf st' = slot_samples env (now st + 1) offset @ drop DATASIZE (databuf st)"
    by (simp add: s0_def emit_def now_def)
  have "length (slot_samples env (now st + 1) offset) = DATASIZE"
    unfolding slot_samples_def by (simp add: length_slot_prefix DATASIZE_def mult.commute)
  then show ?thesis using d by (simp add: offset_def)
qed

lemma drain_data_ns:
  fixes st :: ns_proc
  assumes "drain d env ns_store st = (Inr u, st')" and "length (workbuf st) = WBUFSIZE"
  shows "workbuf st' =
           take FRAG_HEADER_SIZE (workbuf st) @
           concat (map le32 (slot_samples env (now st + 1)
             (unat (slot_of d (hw_reg env (now st) Regs (SHWR_BUF_STATUS_ADDR d))) * SHWR_NSAMPLES)))"
proof -
  define offset where
    "offset = unat (slot_of d (hw_reg env (now st) Regs (SHWR_BUF_STATUS_ADDR d))) * SHWR_NSAMPLES"
  define s0 where "s0 = emit (RegRead Regs (SHWR_BUF_STATUS_ADDR d)
                        (hw_reg env (now st) Regs (SHWR_BUF_STATUS_ADDR d))) st"
  from drain_staging[OF assms(1)] obtain sl where
    lp: "for_loop 0 SHWR_RAW_NCH_MAX (copy_channel env ns_store offset) s0 = (Inr (), sl)"
    and fr: "st' = sl\<lparr>events := events st', gl := gl st', sh := sh st'\<rparr>"
    unfolding offset_def s0_def by blast
  have l0: "length (workbuf s0) = WBUFSIZE" using assms(2) by (simp add: s0_def emit_def)
  have "workbuf st' = workbuf sl" by (subst fr) simp
  also have "\<dots> = take FRAG_HEADER_SIZE (workbuf s0) @
                    concat (map le32 (slot_samples env (now s0) offset))"
    using lp l0 by (rule copy_loop_data_ns)
  finally show ?thesis by (simp add: s0_def emit_def now_def offset_def)
qed

text \<open>
  Claim C4. Let the wait loop of \<^verbatim>\<open>read_evt_read\<close> leave with signal \<open>sig\<close> in state
  \<open>st1\<close>. On the wake-up path every call that returns has appended to the trace, in this
  order: the read of the status register that gives the slot index; the copies of the
  five channels from that slot; the reads of status, start, trigger id, seconds and
  nanoseconds that fill the header; the write of the slot index to the release register;
  the increment of the id counter. The staging buffer holds the \<open>SHWR_NSAMPLES\<close> words of
  that slot of every channel, channel after channel, as the ring buffers held them when
  they were copied (channel \<open>i\<close> at tick \<open>now st1 + 1 + i\<close>): they are the \<open>DATASIZE\<close>
  words of \<^verbatim>\<open>databuf\<close> in the self-test tool, and in the streaming tool their bytes
  follow the first \<open>FRAG_HEADER_SIZE\<close> bytes of \<^verbatim>\<open>workbuf\<close>, an array of \<open>WBUFSIZE\<close>
  bytes. The header holds the values read and the counter's old value, the counter has
  grown by one, and the release write is the only register write of the whole call. On
  the other path the call returns the timed-out result (- 1 in the self-test tool, 1 in
  the streaming tool) and nothing but the trace has changed: no register was written.
  Both tools' copies of the function behave so.
\<close>

theorem read_evt_read_order:
  fixes st :: acr_proc and nst :: ns_proc
  shows
   "(wait_trigger d env fuel (SIG_WAKEUP d) st = Some (sig, st1) \<longrightarrow>
       (if sig = SIG_WAKEUP d then
          (\<forall>r st'. acr_read_evt_read d env fuel st = Some (Inr r, st') \<longrightarrow>
             new_events st1 st' = drain_events d env (now st1) (id_counter (gl st)) \<and>
             sh st' = drained_header d env (now st1) (id_counter (gl st)) \<and>
             id_counter (gl st') = id_counter (gl st) + 1 \<and>
             take DATASIZE (databuf st') =
               slot_samples env (now st1 + 1)
                 (unat (slot_of d (hw_reg env (now st1) Regs (SHWR_BUF_STATUS_ADDR d))) *
                  SHWR_NSAMPLES) \<and>
             filter is_reg_write (new_events st st') =
               [RegWrite Regs (SHWR_BUF_CONTROL_ADDR d)
                  (slot_of d (hw_reg env (now st1) Regs (SHWR_BUF_STATUS_ADDR d)))])
        else acr_read_evt_read d env fuel st = Some (Inr (- 1), st1) \<and>
             st1 = st\<lparr>events := events st1\<rparr> \<and>
             filter is_reg_write (new_events st st1) = [])) \<and>
    (wait_trigger d env fuel (SIG_WAKEUP d) nst = Some (nsig, nst1) \<longrightarrow>
       (if nsig = SIG_WAKEUP d then
          (\<forall>r nst'. ns_read_evt_read d env fuel nst = Some (Inr r, nst') \<longrightarrow>
             r = 0 \<and>
             new_events nst1 nst' = drain_events d env (now nst1) (id_counter (gl nst)) \<and>
             sh nst' = drained_header d env (now nst1) (id_counter (gl nst)) \<and>
             id_counter (gl nst') = id_counter (gl nst) + 1 \<and>
             (length (workbuf nst) = WBUFSIZE \<longrightarrow>
                workbuf nst' =
                  take FRAG_HEADER_SIZE (workbuf nst) @
                  concat (map le32 (slot_samples env (now nst1 + 1)
                    (unat (slot_of d (hw_reg env (now nst1) Regs (SHWR_BUF_STATUS_ADDR d))) *
                     SHWR_NSAMPLES)))) \<and>
             filter is_reg_write (new_events nst nst') =
               [RegWrite Regs (SHWR_BUF_CONTROL_ADDR d)
                  (slot_of d (hw_reg env (now nst1) Regs (SHWR_BUF_STATUS_ADDR d)))])
        else ns_read_evt_read d env fuel nst = Some (Inr 1, nst1) \<and>
             nst1 = nst\<lparr>events := events nst1\<rparr> \<and>
             filter is_reg_write (new_events nst nst1) = []))"
proof (intro conjI impI)
  assume w: "wait_trigger d env fuel (SIG_WAKEUP d) st = Some (sig, st1)"
  show "if sig = SIG_WAKEUP d then
          (\<forall>r st'. acr_read_evt_read d env fuel st = Some (Inr r, st') \<longrightarrow>
             new_events st1 st' = drain_events d env (now st1) (id_counter (gl st)) \<and>
             sh st' = drained_header d env (now st1) (id_counter (gl st)) \<and>
             id_counter (gl st') = id_counter (gl st) + 1 \<and>
             take DATASIZE (databuf st') =
               slot_samples env (now st1 + 1)
                 (unat (slot_of d (hw_reg env (now st1) Regs (SHWR_BUF_STATUS_ADDR d))) *
                  SHWR_NSAMPLES) \<and>
             filter is_reg_write (new_events st st') =
               [RegWrite Regs (SHWR_BUF_CONTROL_ADDR d)
                  (slot_of d (hw_reg env (now st1) Regs (SHWR_BUF_STATUS_ADDR d)))])
        else acr_read_evt_read d env fuel st = Some (Inr (- 1), st1) \<and>
             st1 = st\<lparr>events := events st1\<rparr> \<and>
             filter is_reg_write (new_events st st1) = []"
  proof (cases "sig = SIG_WAKEUP d")
    case False
    then show ?thesis
      using w wait_frame(1,2)[OF w] by (simp add: acr_read_evt_read_def)
  next
    case True
    have "new_events st1 st' = drain_events d env (now st1) (id_counter (gl st)) \<and>
          sh st' = drained_header d env (now st1) (id_counter (gl st)) \<and>
          id_counter (gl st') = id_counter (gl st) + 1 \<and>
          take DATASIZE (databuf st') =
            slot_samples env (now st1 + 1)
              (unat (slot_of d (hw_reg env (now st1) Regs (SHWR_BUF_STATUS_ADDR d))) *
               SHWR_NSAMPLES) \<and>
          filter is_reg_write (new_events st st') =
            [RegWrite Regs (SHWR_BUF_CONTROL_ADDR d)
               (slot_of d (hw_reg env (now st1) Regs (SHWR_BUF_STATUS_ADDR d)))]"
      if res: "acr_read_evt_read d env fuel st = Some (Inr r, st')" for r st'
    proof -
      from res w True have dr: "drain d env acr_store st1 = (Inr (), st')"
        by (auto simp: acr_read_evt_read_def Let_def split: prod.splits sum.splits)
      from drain_after_wait[OF w store_frame_acr dr] drain_data_acr[OF dr]
      show ?thesis by simp
    qed
    then show ?thesis using True by simp
  qed
next
  assume w: "wait_trigger d env fuel (SIG_WAKEUP d) nst = Some (nsig, nst1)"
  show "if nsig = SIG_WAKEUP d then
          (\<forall>r nst'. ns_read_evt_read d env fuel nst = Some (Inr r, nst') \<longrightarrow>
             r = 0 \<and>
             new_events nst1 nst' = drain_events d env (now nst1) (id_counter (gl nst)) \<and>
             sh nst' = drained_header d env (now nst1) (id_counter (gl nst)) \<and>
             id_counter (gl nst') = id_counter (gl nst) + 1 \<and>
             (length (workbuf nst) = WBUFSIZE \<longrightarrow>
                workbuf nst' =
                  take FRAG_HEADER_SIZE (workbuf nst) @
                  concat (map le32 (slot_samples env (now nst1 + 1)
                    (unat (slot_of d (hw_reg env (now nst1) Regs (SHWR_BUF_STATUS_ADDR d))) *
                     SHWR_NSAMPLES)))) \<and>
             filter is_reg_write (new_events nst nst') =
               [RegWrite Regs (SHWR_BUF_CONTROL_ADDR d)
                  (slot_of d (hw_reg env (now nst1) Regs (SHWR_BUF_STATUS_ADDR d)))])
        else ns_read_evt_read d env fuel nst = Some (Inr 1, nst1) \<and>
             nst1 = nst\<lparr>events := events nst1\<rparr> \<and>
             filter is_reg_write (new_events nst nst1) = []"
  proof (cases "nsig = SIG_WAKEUP d")
    case False
    then show ?thesis
      using w wait_frame(1,2)[OF w] by (simp add: ns_read_evt_read_def)
  next
    case True
    have "r = 0 \<and>
          new_events nst1 nst' = drain_events d env (now nst1) (id_counter (gl nst)) \<and>
          sh nst' = drained_header d env (now nst1) (id_counter (gl nst)) \<and>
          id_counter (gl nst') = id_counter (gl nst) + 1 \<and>
          (length (workbuf nst) = WBUFSIZE \<longrightarrow>
             workbuf nst' =
               take FRAG_HEADER_SIZE (workbuf nst) @
               concat (map le32 (slot_samples env (now nst1 + 1)
                 (unat (slot_of d (hw_reg env (now nst1) Regs (SHWR_BUF_STATUS_ADDR d))) *
                  SHWR_NSAMPLES)))) \<and>
          filter is_reg_write (new_events nst nst') =
            [RegWrite Regs (SHWR_BUF_CONTROL_ADDR d)
               (slot_of d (hw_reg env (now nst1) Regs (SHWR_BUF_STATUS_ADDR d)))]"
      if res: "ns_read_evt_read d env fuel nst = Some (Inr r, nst')" for r nst'
    proof -
      from res w True have dr: "drain d env ns_store nst1 = (Inr (), nst')" and "r = 0"
        by (auto simp: ns_read_evt_read_def Let_def split: prod.splits sum.splits)
      have wb: "workbuf nst1 = workbuf nst" by (subst wait_frame(1)[OF w]) simp
      have "workbuf nst' =
               take FRAG_HEADER_SIZE (workbuf nst) @
               concat (map le32 (slot_samples env (now nst1 + 1)
                 (unat (slot_of d (hw_reg env (now nst1) Regs (SHWR_BUF_STATUS_ADDR d))) *
                  SHWR_NSAMPLES)))"
        if "length (workbuf nst) = WBUFSIZE"
        using drain_data_ns[OF dr] that wb by simp
      with drain_after_wait[OF w store_frame_ns dr] \<open>r = 0\<close> show ?thesis by simp
    qed
    then show ?thesis using True by simp
  qed
qed

lemma slot_samples_example:
  "slot_samples sample_env 2 2048 ! 0 = 2048" "slot_samples sample_env 2 2048 ! 2048 = 12048"
proof -
  have u: "[0..<SHWR_RAW_NCH_MAX] = [0, 1, 2, 3, 4]"
    by (simp add: SHWR_RAW_NCH_MAX_def upt_rec)
  show "slot_samples sample_env 2 2048 ! 0 = 2048" "slot_samples sample_env 2 2048 ! 2048 = 12048"
    by (simp_all add: slot_samples_def u nth_append slot_words_def SHWR_NSAMPLES_def
        sample_env_def)
qed

theorem read_evt_read_order_witness:
  "(\<exists>r st'. acr_read_evt_read test_defs sample_env (Suc 0) acr_mapped = Some (Inr r, st') \<and>
      new_events acr_mapped st' = RegRead Regs 10 20 # drain_events test_defs sample_env 1 7 \<and>
      sh st' = drained_header test_defs sample_env 1 7 \<and>
      id_counter (gl st') = 8 \<and>
      take DATASIZE (databuf st') = slot_samples sample_env 2 2048 \<and>
      slot_samples sample_env 2 2048 ! 2048 = 12048 \<and>
      filter is_reg_write (new_events acr_mapped st') = [RegWrite Regs 13 1]) \<and>
   (\<exists>nst'. ns_read_evt_read test_defs sample_env (Suc 0) ns_ready = Some (Inr 0, nst') \<and>
      workbuf nst' = replicate 8 0 @ concat (map le32 (slot_samples sample_env 2 2048)) \<and>
      id_counter (gl nst') = 8 \<and>
      filter is_reg_write (new_events ns_ready nst') = [RegWrite Regs 13 1]) \<and>
   acr_read_evt_read test_defs (status_env 0 (- 1)) (Suc (Suc 0)) acr_mapped =
     Some (Inr (- 1),
           acr_mapped\<lparr>events := [RegRead Regs 10 0, Call SysSigwaitinfo (- 1), RegRead Regs 10 0]\<rparr>)"
proof -
  define env where "env = sample_env"
  define st1 where "st1 = acr_mapped\<lparr>events := [RegRead Regs 10 20]\<rparr>"
  define nst1 where "nst1 = ns_ready\<lparr>events := [RegRead Regs 10 20]\<rparr>"
  have sig: "SIG_WAKEUP test_defs = 48" by (simp add: test_defs_def)
  note order = read_evt_read_order[of test_defs env "Suc 0" acr_mapped 48 st1 ns_ready 48 nst1]
  have first: "\<exists>r st'. acr_read_evt_read test_defs env (Suc 0) acr_mapped = Some (Inr r, st') \<and>
      new_events acr_mapped st' = RegRead Regs 10 20 # drain_events test_defs env 1 7 \<and>
      sh st' = drained_header test_defs env 1 7 \<and>
      id_counter (gl st') = 8 \<and>
      take DATASIZE (databuf st') = slot_samples env 2 2048 \<and>
      filter is_reg_write (new_events acr_mapped st') = [RegWrite Regs 13 1]"
  proof -
    have w: "wait_trigger test_defs env (Suc 0) (SIG_WAKEUP test_defs) acr_mapped = Some (48, st1)"
      by (simp add: env_def sample_env_def status_env_def test_defs_def reg_read_def now_def
          emit_def Let_def acr_mapped_def acr_init_def st1_def)
    have slot: "slot_of test_defs (hw_reg env (now st1) Regs (SHWR_BUF_STATUS_ADDR test_defs)) = 1"
      by (simp add: slot_of_def test_defs_def env_def sample_env_def status_env_def)
    have fits: "window_fits st1 (unat (slot_of test_defs (hw_reg env (now st1) Regs (SHWR_BUF_STATUS_ADDR test_defs))) * SHWR_NSAMPLES)"
      unfolding slot
      by (simp add: window_fits_def st1_def acr_mapped_def mapped_gl_def SHWR_NSAMPLES_def
          SHWR_RAW_NCH_MAX_def)
    from drain_succeeds[OF store_frame_acr fits] obtain st' where
      dr: "drain test_defs env acr_store st1 = (Inr (), st')" by blast
    have res: "acr_read_evt_read test_defs env (Suc 0) acr_mapped =
        Some (Inr (clock_us env (now st') - clock_us env (now st1)), st')"
      using w dr by (simp add: acr_read_evt_read_def sig Let_def)
    have n1: "now st1 = 1" by (simp add: st1_def now_def)
    have idc: "id_counter (gl acr_mapped) = 7" by (simp add: acr_mapped_def mapped_gl_def)
    have ev0: "events acr_mapped = []" by (simp add: acr_mapped_def acr_init_def)
    from order[THEN conjunct1, rule_format, OF w]
    have "\<forall>r st'. acr_read_evt_read test_defs env (Suc 0) acr_mapped = Some (Inr r, st') \<longrightarrow>
             new_events st1 st' = drain_events test_defs env (now st1) (id_counter (gl acr_mapped)) \<and>
             sh st' = drained_header test_defs env (now st1) (id_counter (gl acr_mapped)) \<and>
             id_counter (gl st') = id_counter (gl acr_mapped) + 1 \<and>
             take DATASIZE (databuf st') =
               slot_samples env (now st1 + 1)
                 (unat (slot_of test_defs (hw_reg env (now st1) Regs (SHWR_BUF_STATUS_ADDR test_defs))) *
                  SHWR_NSAMPLES) \<and>
             filter is_reg_write (new_events acr_mapped st') =
               [RegWrite Regs (SHWR_BUF_CONTROL_ADDR test_defs)
                  (slot_of test_defs (hw_reg env (now st1) Regs (SHWR_BUF_STATUS_ADDR test_defs)))]"
      by (simp only: sig simp_thms if_True)
    note raw = this[rule_format, OF res]
    have n2: "Suc (now st1) = 2" by (simp add: st1_def now_def)
    have dt: "take DATASIZE (databuf st') = slot_samples env 2 2048"
      using raw by (simp add: slot n2 SHWR_NSAMPLES_def)
    from raw
    have a: "new_events st1 st' = drain_events test_defs env 1 7"
      and b: "sh st' = drained_header test_defs env 1 7"
      and c: "id_counter (gl st') = 8"
      and e: "filter is_reg_write (new_events acr_mapped st') = [RegWrite Regs 13 1]"
      using slot by (simp_all add: sig n1 idc) (simp_all add: test_defs_def)
    have "new_events acr_mapped st' = RegRead Regs 10 20 # drain_events test_defs env 1 7"
    proof -
      have "events st' = events st1 @ drain_events test_defs env 1 7"
        using drain_result[OF store_frame_acr, where d=test_defs and env=env and st=st1] dr n1 idc
        by (simp add: st1_def)
      then show ?thesis by (simp add: new_events_def st1_def ev0)
    qed
    then show ?thesis using res b c dt e by blast
  qed
  have second: "\<exists>nst'. ns_read_evt_read test_defs env (Suc 0) ns_ready = Some (Inr 0, nst') \<and>
      workbuf nst' = replicate 8 0 @ concat (map le32 (slot_samples env 2 2048)) \<and>
      id_counter (gl nst') = 8 \<and>
      filter is_reg_write (new_events ns_ready nst') = [RegWrite Regs 13 1]"
  proof -
    have w: "wait_trigger test_defs env (Suc 0) (SIG_WAKEUP test_defs) ns_ready = Some (48, nst1)"
      by (simp add: env_def sample_env_def status_env_def test_defs_def reg_read_def now_def
          emit_def Let_def ns_ready_def ns_init_def nst1_def)
    have slot: "slot_of test_defs (hw_reg env (now nst1) Regs (SHWR_BUF_STATUS_ADDR test_defs)) = 1"
      by (simp add: slot_of_def test_defs_def env_def sample_env_def status_env_def)
    have fits: "window_fits nst1 (unat (slot_of test_defs (hw_reg env (now nst1) Regs (SHWR_BUF_STATUS_ADDR test_defs))) * SHWR_NSAMPLES)"
      unfolding slot
      by (simp add: window_fits_def nst1_def ns_ready_def mapped_gl_def SHWR_NSAMPLES_def
          SHWR_RAW_NCH_MAX_def)
    from drain_succeeds[OF store_frame_ns fits] obtain st' where
      dr: "drain test_defs env ns_store nst1 = (Inr (), st')" by blast
    have res: "ns_read_evt_read test_defs env (Suc 0) ns_ready = Some (Inr 0, st')"
      using w dr by (simp add: ns_read_evt_read_def sig)
    have n1: "now nst1 = 1" by (simp add: nst1_def now_def)
    have idc: "id_counter (gl ns_ready) = 7" by (simp add: ns_ready_def mapped_gl_def)
    have len: "length (workbuf ns_ready) = WBUFSIZE" by (simp add: ns_ready_def ns_init_def)
    have hd: "take FRAG_HEADER_SIZE (workbuf ns_ready) = replicate 8 0"
      by (simp add: ns_ready_def ns_init_def WBUFSIZE_def FRAG_HEADER_SIZE_def)
    from order[THEN conjunct2, rule_format, OF w]
    have "\<forall>r nst'. ns_read_evt_read test_defs env (Suc 0) ns_ready = Some (Inr r, nst') \<longrightarrow>
             r = 0 \<and>
             new_events nst1 nst' = drain_events test_defs env (now nst1) (id_counter (gl ns_ready)) \<and>
             sh nst' = drained_header test_defs env (now nst1) (id_counter (gl ns_ready)) \<and>
             id_counter (gl nst') = id_counter (gl ns_ready) + 1 \<and>
             (length (workbuf ns_ready) = WBUFSIZE \<longrightarrow>
                workbuf nst' =
                  take FRAG_HEADER_SIZE (workbuf ns_ready) @
                  concat (map le32 (slot_samples env (now nst1 + 1)
                    (unat (slot_of test_defs (hw_reg env (now nst1) Regs (SHWR_BUF_STATUS_ADDR test_defs))) *
                     SHWR_NSAMPLES)))) \<and>
             filter is_reg_write (new_events ns_ready nst') =
               [RegWrite Regs (SHWR_BUF_CONTROL_ADDR test_defs)
                  (slot_of test_defs (hw_reg env (now nst1) Regs (SHWR_BUF_STATUS_ADDR test_defs)))]"
      by (simp only: sig simp_thms if_True)
    note raw = this[rule_format, OF res]
    have n2: "Suc (now nst1) = 2" by (simp add: nst1_def now_def)
    have dt: "workbuf st' = take FRAG_HEADER_SIZE (workbuf ns_ready) @
                 concat (map le32 (slot_samples env 2 2048))"
      using raw len by (simp add: slot n2 SHWR_NSAMPLES_def)
    from raw
    have c: "id_counter (gl st') = 8"
      and e: "filter is_reg_write (new_events ns_ready st') = [RegWrite Regs 13 1]"
      using slot by (simp_all add: sig n1 idc) (simp_all add: test_defs_def)
    show ?thesis using res hd c dt e by simp
  qed
  have third: "acr_read_evt_read test_defs (status_env 0 (- 1)) (Suc (Suc 0)) acr_mapped =
     Some (Inr (- 1),
           acr_mapped\<lparr>events := [RegRead Regs 10 0, Call SysSigwaitinfo (- 1), RegRead Regs 10 0]\<rparr>)"
    by (simp add: acr_read_evt_read_def status_env_def test_defs_def reg_read_def syscall_def
        now_def emit_def Let_def acr_mapped_def acr_init_def)
  show ?thesis using first second third slot_samples_example(2) unfolding env_def by blast
qed

subsection \<open>Self-test tool: SPI writes over a whole run\<close>


lemma silent_refl [simp]: "silent st st"
  by (simp add: silent_def)
















































end
